theory Spec2Isabelle
  imports Main "HOL-Library.Word" "HOL-Library.Multiset"
begin

section \<open>Data model of mig.go\<close>

text \<open>
  Versions and timestamps are Go \<open>int64\<close> values: 64-bit words, compared as two's
  complement numbers (\<open><s\<close>, \<open>\<le>s\<close>) and subtracted with wrap-around.
\<close>

type_synonym int64 = "64 word"

text \<open>
  Every \<open>fmt.Errorf\<close> of mig.go is one constructor that carries the arguments of its
  format string; \<open>Cause\<close> is an error produced outside mig.go (by the driver or by a
  migration function).

  \<^item> \<open>NilMigration\<close>: "migrations cannot be nil in register"
  \<^item> \<open>BadExtension f\<close>: "migration file f should have .go extension"
  \<^item> \<open>BadFileName f\<close>: "migration file name must be NUMBER_NAME.go, is f"
  \<^item> \<open>InvalidVersion v f\<close>: "version v in file f is not valid, it must be bigger than 0"
  \<^item> \<open>AlreadyRegistered v f\<close>: "migration with number v has already been registered in file f"
  \<^item> \<open>NotFound v\<close>: "unable to find a migration with version v"
  \<^item> \<open>NoWork\<close>: "no transactions to run"
  \<^item> \<open>StepUp v c\<close>: "error applying migration up v: c"
  \<^item> \<open>StepDown v c\<close>: "error applying migration down v: c"
  \<^item> \<open>BeginFailed c\<close>: "unable to start transaction: c"
  \<^item> \<open>RollbackFailed c\<close>: "unable to rollback: c"
  \<^item> \<open>RolledBack c\<close>: "transaction was rolled back: c"
  \<^item> \<open>CommitFailed c\<close>: "unable to commit transaction: c"
  \<^item> \<open>QueryFailed c\<close>: "error checking current version: c"
  \<^item> \<open>SetVersionFailed v c\<close>: "error setting version of database to v: c"
  \<^item> \<open>SetupFailed c\<close>: "unable to create table [tableName]: c"
\<close>

datatype error =
    Cause string
  | NilMigration
  | BadExtension string
  | BadFileName string
  | InvalidVersion int64 string
  | AlreadyRegistered int64 string
  | NotFound int64
  | NoWork
  | StepUp int64 error
  | StepDown int64 error
  | BeginFailed error
  | RollbackFailed error
  | RolledBack error
  | CommitFailed error
  | QueryFailed error
  | SetVersionFailed int64 error
  | SetupFailed error

text \<open>
  The database as mig.go sees it: the version table (absent until \<open>setup\<close> creates it;
  its rows are pairs \<open>(version, updated_at)\<close> in insertion order) and everything else,
  which only the migration functions touch.
\<close>

record 'u database =
  vtable :: "(int64 \<times> int64) list option"
  user :: 'u

text \<open>
  \<open>MigrationFunc\<close>: a function that runs statements against the handle it is given and
  returns an error or nil. Its model maps the database it sees to the database it leaves
  and its result. A nil function value is \<open>None\<close> where \<open>Register\<close> receives one.
\<close>

type_synonym 'u MigrationFunc = "'u database \<Rightarrow> 'u database \<times> error option"

record 'u migration =
  version :: int64
  up :: "'u MigrationFunc"
  down :: "'u MigrationFunc"
  file_name :: string

text \<open>
  What the world outside mig.go does during one call: the clock read by
  \<open>time.Now().Unix()\<close>, the failures of the driver's operations (\<open>None\<close>: the operation
  succeeds), and which of the rows that share the greatest \<open>updated_at\<close> the engine puts
  first for \<open>ORDER BY updated_at DESC\<close> (SQL leaves the order of ties open).
\<close>

record env =
  now :: int64
  tiebreak :: "(int64 \<times> int64) list \<Rightarrow> nat"
  setup_err :: "error option"
  query_err :: "error option"
  insert_err :: "error option"
  begin_err :: "error option"
  commit_err :: "error option"
  rollback_err :: "error option"

text \<open>The invocations of migration functions, in the order they happen.\<close>

datatype direction = MigrationUp | MigrationDown

type_synonym event = "direction \<times> int64"

section \<open>Register and versionFromFile\<close>

text \<open>\<open>strings.HasSuffix\<close>.\<close>

definition HasSuffix :: "string \<Rightarrow> string \<Rightarrow> bool" where
  "HasSuffix s suffix \<longleftrightarrow>
     length suffix \<le> length s \<and> drop (length s - length suffix) s = suffix"

text \<open>
  \<open>strconv.ParseInt(s, 10, 64)\<close>: an optional sign, then one or more decimal digits;
  \<open>None\<close> stands for any error (syntax or range).
\<close>

definition is_digit :: "char \<Rightarrow> bool" where
  "is_digit c \<longleftrightarrow> 48 \<le> (of_char c :: nat) \<and> (of_char c :: nat) \<le> 57"

definition digits_value :: "string \<Rightarrow> nat" where
  "digits_value ds = foldl (\<lambda>n c. n * 10 + ((of_char c :: nat) - 48)) 0 ds"

definition ParseInt :: "string \<Rightarrow> int64 option" where
  "ParseInt s =
     (case s of
        [] \<Rightarrow> None
      | c # cs \<Rightarrow>
          (let neg = (c = CHR ''-'');
               ds = (if c = CHR ''+'' \<or> c = CHR ''-'' then cs else s)
           in if ds = [] \<or> \<not> list_all is_digit ds then None
              else let un = digits_value ds
                   in if \<not> neg \<and> 2 ^ 63 \<le> un then None
                      else if neg \<and> 2 ^ 63 < un then None
                      else Some (if neg then - word_of_nat un else word_of_nat un)))"

text \<open>
  \<open>versionFromFile\<close>: the name must end in ".go", and the text before its first
  underscore must parse as an integer.
\<close>

definition versionFromFile :: "string \<Rightarrow> error + int64" where
  "versionFromFile f =
     (if \<not> HasSuffix f ''.go'' then Inl (BadExtension f)
      else if CHR ''_'' \<in> set f then
        (case ParseInt (takeWhile (\<lambda>c. c \<noteq> CHR ''_'') f) of
           Some v \<Rightarrow> Inr v
         | None \<Rightarrow> Inl (BadFileName f))
      else Inl (BadFileName f))"

text \<open>\<open>filepath.Base\<close> on a slash-separated path.\<close>

definition Base :: "string \<Rightarrow> string" where
  "Base path =
     (if path = [] then ''.''
      else let p = rev (dropWhile (\<lambda>c. c = CHR ''/'') (rev path));
               q = rev (takeWhile (\<lambda>c. c \<noteq> CHR ''/'') (rev p))
           in if q = [] then ''/'' else q)"

text \<open>
  \<open>Register\<close>: the global \<open>migrations\<close> is passed in and returned; the file reported by
  \<open>runtime.Caller(1)\<close> is the parameter \<open>caller\<close>. A panic is \<open>Inl\<close> of the panic value.
  The registry holds function values that are not nil, since \<open>Register\<close> is the only
  exported way to fill it.
\<close>

definition Register ::
  "'u MigrationFunc option \<Rightarrow> 'u MigrationFunc option \<Rightarrow> string \<Rightarrow> 'u migration list
     \<Rightarrow> error + 'u migration list" where
  "Register up_fn down_fn caller migrations =
     (case (up_fn, down_fn) of
        (Some u, Some d) \<Rightarrow>
          (let f = Base caller in
           case versionFromFile f of
             Inl e \<Rightarrow> Inl e
           | Inr v \<Rightarrow>
               if v <s 0 then Inl (InvalidVersion v f)
               else (case find (\<lambda>m. version m = v) migrations of
                       Some m \<Rightarrow> Inl (AlreadyRegistered v (file_name m))
                     | None \<Rightarrow>
                         Inr (migrations @ [\<lparr>version = v, up = u, down = d, file_name = f\<rparr>])))
      | _ \<Rightarrow> Inl NilMigration)"

section \<open>The version table\<close>

text \<open>
  \<open>setup\<close>: \<open>CREATE TABLE IF NOT EXISTS\<close>; an existing table keeps its rows.
\<close>

definition setup_table :: "env \<Rightarrow> 'u database \<Rightarrow> 'u database \<times> error option" where
  "setup_table e db =
     (case setup_err e of
        Some c \<Rightarrow> (db, Some (SetupFailed c))
      | None \<Rightarrow>
          (case vtable db of
             None \<Rightarrow> (db\<lparr>vtable := Some []\<rparr>, None)
           | Some rs \<Rightarrow> (db, None)))"

text \<open>
  \<open>SELECT version FROM t ORDER BY updated_at DESC\<close>, read with \<open>QueryRow(..).Scan\<close>:
  the first row of the result, which is one of the rows whose \<open>updated_at\<close> is greatest;
  \<open>None\<close> is \<open>sql.ErrNoRows\<close>.
\<close>

definition table_rows :: "'u database \<Rightarrow> (int64 \<times> int64) list" where
  "table_rows db = (case vtable db of None \<Rightarrow> [] | Some rs \<Rightarrow> rs)"

definition newest :: "(int64 \<times> int64) list \<Rightarrow> (int64 \<times> int64) list" where
  "newest rs = filter (\<lambda>r. list_all (\<lambda>r'. snd r' \<le>s snd r) rs) rs"

definition first_row :: "env \<Rightarrow> (int64 \<times> int64) list \<Rightarrow> int64 option" where
  "first_row e rs =
     (case newest rs of
        [] \<Rightarrow> None
      | c # cs \<Rightarrow> Some (fst ((c # cs) ! (tiebreak e (c # cs) mod length (c # cs)))))"

definition CurrentVersion :: "env \<Rightarrow> 'u database \<Rightarrow> (int64 \<times> error option) \<times> 'u database" where
  "CurrentVersion e db =
     (case setup_table e db of
        (db1, Some err) \<Rightarrow> ((0, Some err), db1)
      | (db1, None) \<Rightarrow>
          (case query_err e of
             Some c \<Rightarrow> ((0, Some (QueryFailed c)), db1)
           | None \<Rightarrow>
               (case first_row e (table_rows db1) of
                  None \<Rightarrow> ((0, None), db1)
                | Some v \<Rightarrow> ((v, None), db1))))"

text \<open>
  \<open>SetVersion\<close>: one more row \<open>(v, now)\<close>; an insert into a table that does not exist
  fails in the driver.
\<close>

definition SetVersion :: "env \<Rightarrow> int64 \<Rightarrow> 'u database \<Rightarrow> 'u database \<times> error option" where
  "SetVersion e v db =
     (case insert_err e of
        Some c \<Rightarrow> (db, Some (SetVersionFailed v c))
      | None \<Rightarrow>
          (case vtable db of
             None \<Rightarrow> (db, Some (SetVersionFailed v (Cause ''no such table'')))
           | Some rs \<Rightarrow> (db\<lparr>vtable := Some (rs @ [(v, now e)])\<rparr>, None)))"

section \<open>The executor\<close>

text \<open>\<open>sortedMigrations\<close>: a copy, sorted by \<open>sort.Stable\<close> on the version.\<close>

definition sortedMigrations :: "'u migration list \<Rightarrow> 'u migration list" where
  "sortedMigrations migrations = sort_key (\<lambda>m. sint (version m)) migrations"

text \<open>
  What a unit of work reads and writes: the named result \<open>newVersion\<close> that the closure
  \<open>fn\<close> captures and assigns, the invocations made so far, and the database behind the
  handle the closure is given.
\<close>

type_synonym 'u state = "int64 \<times> event list \<times> 'u database"

text \<open>
  The loop of the closure \<open>fn\<close> in \<open>upTo\<close> and \<open>downTo\<close>: for each pending migration,
  assign \<open>newVersion\<close>, then call the migration function; the first error ends the loop
  (\<open>act\<close> is \<open>up\<close> or \<open>down\<close>, \<open>wrap\<close> the error of the direction). The two
  closures differ in nothing else: the message of \<open>downTo\<close> prints \<open>newVersion\<close>, which
  was just assigned \<open>m.version\<close>.
\<close>

fun fn_loop ::
  "('u migration \<Rightarrow> 'u MigrationFunc) \<Rightarrow> (int64 \<Rightarrow> error \<Rightarrow> error) \<Rightarrow> direction
     \<Rightarrow> 'u migration list \<Rightarrow> 'u state \<Rightarrow> 'u state \<times> error option" where
  "fn_loop act wrap dir [] s = (s, None)"
| "fn_loop act wrap dir (m # ms) (nv, tr, db) =
     (case act m db of
        (db', Some c) \<Rightarrow>
          ((version m, tr @ [(dir, version m)], db'), Some (wrap (version m) c))
      | (db', None) \<Rightarrow>
          fn_loop act wrap dir ms (version m, tr @ [(dir, version m)], db'))"

text \<open>The closure \<open>fn\<close>: the loop, then \<open>SetVersion(db, newVersion)\<close>.\<close>

definition fn ::
  "('u migration \<Rightarrow> 'u MigrationFunc) \<Rightarrow> (int64 \<Rightarrow> error \<Rightarrow> error) \<Rightarrow> direction
     \<Rightarrow> env \<Rightarrow> 'u migration list \<Rightarrow> 'u state \<Rightarrow> 'u state \<times> error option" where
  "fn act wrap dir e pendingMigrations s =
     (case fn_loop act wrap dir pendingMigrations s of
        (s', Some err) \<Rightarrow> (s', Some err)
      | ((nv, tr, db'), None) \<Rightarrow>
          (case SetVersion e nv db' of (db'', err) \<Rightarrow> ((nv, tr, db''), err)))"

text \<open>
  \<open>runTx\<close>: the closure runs against a transaction. What it did to the database is
  visible afterwards only if \<open>Commit\<close> succeeds; what it did to the memory of the process
  (\<open>newVersion\<close>, the invocations) stays.
\<close>

definition runTx ::
  "env \<Rightarrow> ('u state \<Rightarrow> 'u state \<times> error option) \<Rightarrow> 'u state \<Rightarrow> 'u state \<times> error option" where
  "runTx e f s =
     (case begin_err e of
        Some c \<Rightarrow> (s, Some (BeginFailed c))
      | None \<Rightarrow>
          (case f s of
             ((nv, tr, db'), Some err) \<Rightarrow>
               (case rollback_err e of
                  Some c \<Rightarrow> ((nv, tr, snd (snd s)), Some (RollbackFailed c))
                | None \<Rightarrow> ((nv, tr, snd (snd s)), Some (RolledBack err)))
           | ((nv, tr, db'), None) \<Rightarrow>
               (case commit_err e of
                  Some c \<Rightarrow> ((nv, tr, snd (snd s)), Some (CommitFailed c))
                | None \<Rightarrow> ((nv, tr, db'), None))))"

text \<open>
  \<open>upTo\<close> and \<open>downTo\<close>. In \<open>return newVersion, fn(db)\<close> the call is made first and
  \<open>newVersion\<close> is read afterwards: \<open>TestUp\<close> and \<open>TestDown\<close> of mig_test.go expect
  the version that the closure assigned. The result is Go's pair
  \<open>(newVersion, err)\<close>, then the invocations made and the database left behind.
\<close>

definition upTo_pending :: "'u migration list \<Rightarrow> int64 \<Rightarrow> int64 \<Rightarrow> 'u migration list" where
  "upTo_pending migrations oldVersion target =
     filter (\<lambda>m. oldVersion <s version m \<and> version m \<le>s target)
       (sortedMigrations migrations)"

definition upTo ::
  "env \<Rightarrow> 'u migration list \<Rightarrow> bool \<Rightarrow> int64 \<Rightarrow> int64 \<Rightarrow> 'u database
     \<Rightarrow> (int64 \<times> error option) \<times> event list \<times> 'u database" where
  "upTo e migrations tx oldVersion target db =
     (let pendingMigrations = upTo_pending migrations oldVersion target
      in case pendingMigrations of
           [] \<Rightarrow> ((0, Some NoWork), [], db)
         | _ # _ \<Rightarrow>
             (case (if tx then runTx e (fn up StepUp MigrationUp e pendingMigrations)
                    else fn up StepUp MigrationUp e pendingMigrations) (0, [], db) of
                ((newVersion, tr, db'), err) \<Rightarrow> ((newVersion, err), tr, db')))"

text \<open>The loop of \<open>downTo\<close> walks the sorted copy from its last element to its first.\<close>

definition downTo_pending :: "'u migration list \<Rightarrow> int64 \<Rightarrow> int64 \<Rightarrow> 'u migration list" where
  "downTo_pending migrations oldVersion target =
     filter (\<lambda>m. version m \<le>s oldVersion \<and> target <s version m)
       (rev (sortedMigrations migrations))"

definition downTo ::
  "env \<Rightarrow> 'u migration list \<Rightarrow> bool \<Rightarrow> int64 \<Rightarrow> int64 \<Rightarrow> 'u database
     \<Rightarrow> (int64 \<times> error option) \<times> event list \<times> 'u database" where
  "downTo e migrations tx oldVersion target db =
     (let pendingMigrations = downTo_pending migrations oldVersion target
      in case pendingMigrations of
           [] \<Rightarrow> ((0, Some NoWork), [], db)
         | _ # _ \<Rightarrow>
             (case (if tx then runTx e (fn down StepDown MigrationDown e pendingMigrations)
                    else fn down StepDown MigrationDown e pendingMigrations) (0, [], db) of
                ((newVersion, tr, db'), err) \<Rightarrow> ((newVersion - 1, err), tr, db')))"

text \<open>\<open>math.MaxInt64\<close>.\<close>

definition MaxInt64 :: int64 where
  "MaxInt64 = 9223372036854775807"

text \<open>
  The exported operations. The result is Go's triple \<open>(oldVersion, newVersion, err)\<close>,
  then the invocations made and the database left behind.
\<close>

type_synonym 'u outcome = "(int64 \<times> int64 \<times> error option) \<times> event list \<times> 'u database"

definition Up :: "env \<Rightarrow> 'u migration list \<Rightarrow> bool \<Rightarrow> 'u database \<Rightarrow> 'u outcome" where
  "Up e migrations tx db =
     (case CurrentVersion e db of
        ((oldVersion, Some err), db1) \<Rightarrow> ((oldVersion, 0, Some err), [], db1)
      | ((oldVersion, None), db1) \<Rightarrow>
          (case upTo e migrations tx oldVersion MaxInt64 db1 of
             ((newVersion, err), tr, db2) \<Rightarrow> ((oldVersion, newVersion, err), tr, db2)))"

definition Down :: "env \<Rightarrow> 'u migration list \<Rightarrow> bool \<Rightarrow> 'u database \<Rightarrow> 'u outcome" where
  "Down e migrations tx db =
     (case CurrentVersion e db of
        ((oldVersion, Some err), db1) \<Rightarrow> ((0, 0, Some err), [], db1)
      | ((oldVersion, None), db1) \<Rightarrow>
          (case downTo e migrations tx oldVersion (oldVersion - 1) db1 of
             ((newVersion, err), tr, db2) \<Rightarrow> ((oldVersion, newVersion, err), tr, db2)))"

definition ToVersion ::
  "env \<Rightarrow> 'u migration list \<Rightarrow> bool \<Rightarrow> int64 \<Rightarrow> 'u database \<Rightarrow> 'u outcome" where
  "ToVersion e migrations tx v db =
     (case CurrentVersion e db of
        ((oldVersion, Some err), db1) \<Rightarrow> ((oldVersion, 0, Some err), [], db1)
      | ((oldVersion, None), db1) \<Rightarrow>
          if oldVersion = v then ((v, v, None), [], db1)
          else if \<not> list_ex (\<lambda>m. version m = v) migrations
          then ((0, 0, Some (NotFound v)), [], db1)
          else (case (if oldVersion <s v then upTo e migrations tx oldVersion v db1
                      else downTo e migrations tx oldVersion v db1) of
                  ((newVersion, err), tr, db2) \<Rightarrow> ((oldVersion, newVersion, err), tr, db2)))"

section \<open>Vocabulary of the properties\<close>

text \<open>
  \<open>upTo\<close> and \<open>downTo\<close> have one shape; the direction selects the function of a
  step that is called, the error that wraps its failure, the pending steps and the
  application itself.
\<close>

definition action :: "direction \<Rightarrow> 'u migration \<Rightarrow> 'u MigrationFunc" where
  "action dir = (case dir of MigrationUp \<Rightarrow> up | MigrationDown \<Rightarrow> down)"

definition step_error :: "direction \<Rightarrow> int64 \<Rightarrow> error \<Rightarrow> error" where
  "step_error dir = (case dir of MigrationUp \<Rightarrow> StepUp | MigrationDown \<Rightarrow> StepDown)"

definition pending :: "direction \<Rightarrow> 'u migration list \<Rightarrow> int64 \<Rightarrow> int64 \<Rightarrow> 'u migration list" where
  "pending dir migrations oldVersion target =
     (case dir of
        MigrationUp \<Rightarrow> upTo_pending migrations oldVersion target
      | MigrationDown \<Rightarrow> downTo_pending migrations oldVersion target)"

definition application ::
  "direction \<Rightarrow> env \<Rightarrow> 'u migration list \<Rightarrow> bool \<Rightarrow> int64 \<Rightarrow> int64 \<Rightarrow> 'u database
     \<Rightarrow> (int64 \<times> error option) \<times> event list \<times> 'u database" where
  "application dir e migrations tx oldVersion target db =
     (case dir of
        MigrationUp \<Rightarrow> upTo e migrations tx oldVersion target db
      | MigrationDown \<Rightarrow> downTo e migrations tx oldVersion target db)"

text \<open>
  What an application returns as \<open>newVersion\<close> when the closure last assigned \<open>v\<close>:
  \<open>upTo\<close> returns \<open>newVersion\<close>, \<open>downTo\<close> returns \<open>newVersion - 1\<close>.
\<close>

definition reported :: "direction \<Rightarrow> int64 \<Rightarrow> int64" where
  "reported dir v = (case dir of MigrationUp \<Rightarrow> v | MigrationDown \<Rightarrow> v - 1)"

text \<open>
  The database after the migration functions \<open>act\<close> of the steps \<open>ms\<close> have run one
  after the other, whatever they returned.
\<close>

definition effects ::
  "('u migration \<Rightarrow> 'u MigrationFunc) \<Rightarrow> 'u migration list \<Rightarrow> 'u database \<Rightarrow> 'u database" where
  "effects act ms db = fold (\<lambda>m d. fst (act m d)) ms db"

text \<open>
  Step \<open>k\<close> (counted from 0) of the pending steps \<open>p\<close> is the first whose migration
  function fails, with the error \<open>c\<close>, when the steps run from the database \<open>db\<close>.
\<close>

definition fails_at ::
  "('u migration \<Rightarrow> 'u MigrationFunc) \<Rightarrow> 'u migration list \<Rightarrow> 'u database \<Rightarrow> nat \<Rightarrow> error
     \<Rightarrow> bool" where
  "fails_at act p db k c \<longleftrightarrow>
     k < length p \<and>
     list_all (\<lambda>i. snd (act (p ! i) (effects act (take i p) db)) = None) [0..<k] \<and>
     snd (act (p ! k) (effects act (take k p) db)) = Some c"

text \<open>Every migration function of the steps \<open>p\<close> succeeds when they run from \<open>db\<close>.\<close>

definition all_succeed ::
  "('u migration \<Rightarrow> 'u MigrationFunc) \<Rightarrow> 'u migration list \<Rightarrow> 'u database \<Rightarrow> bool" where
  "all_succeed act p db \<longleftrightarrow>
     list_all (\<lambda>i. snd (act (p ! i) (effects act (take i p) db)) = None) [0..<length p]"

text \<open>The invocations of the steps \<open>ms\<close> in the direction \<open>dir\<close>.\<close>

definition invocations :: "direction \<Rightarrow> 'u migration list \<Rightarrow> event list" where
  "invocations dir ms = map (\<lambda>m. (dir, version m)) ms"

section \<open>The fixtures of mig_test.go\<close>

text \<open>
  \<open>newMigrationFunc\<close> inserts \<open>(version, migration_type)\<close> into the table
  \<open>migrations_run\<close> and returns the error it was built with; \<open>generateMigrations n\<close>
  are the steps \<open>1..n\<close> with such functions; \<open>errorMigrations\<close> is the registry of
  \<open>TestUp_ErrorMigration\<close>, whose step 2 fails. The rest of the database is the list
  of the rows of \<open>migrations_run\<close>.
\<close>

type_synonym runs = "(int64 \<times> direction) list"

definition newMigrationFunc :: "int64 \<Rightarrow> direction \<Rightarrow> error option \<Rightarrow> runs MigrationFunc" where
  "newMigrationFunc v typ err db = (db\<lparr>user := user db @ [(v, typ)]\<rparr>, err)"

fun decimal :: "nat \<Rightarrow> string" where
  "decimal n =
     (if n < 10 then [char_of (48 + n)]
      else decimal (n div 10) @ [char_of (48 + n mod 10)])"

definition test_migration :: "nat \<Rightarrow> error option \<Rightarrow> runs migration" where
  "test_migration j err =
     \<lparr>version = word_of_nat j,
      up = newMigrationFunc (word_of_nat j) MigrationUp err,
      down = newMigrationFunc (word_of_nat j) MigrationDown err,
      file_name = decimal j @ ''_test.go''\<rparr>"

definition generateMigrations :: "nat \<Rightarrow> runs migration list" where
  "generateMigrations n = map (\<lambda>i. test_migration (i + 1) None) [0..<n]"

definition errorMigrations :: "runs migration list" where
  "errorMigrations =
     [test_migration 1 None, test_migration 2 (Some (Cause ''err'')), test_migration 3 None]"

text \<open>A database on which nothing has run (\<open>initTest\<close> before \<open>setup\<close>).\<close>

definition fresh :: "runs database" where
  "fresh = \<lparr>vtable = None, user = []\<rparr>"

text \<open>The driver never fails, the clock reads \<open>t\<close>, ties are broken by \<open>tb\<close>.\<close>

definition working :: "int64 \<Rightarrow> ((int64 \<times> int64) list \<Rightarrow> nat) \<Rightarrow> env" where
  "working t tb =
     \<lparr>now = t, tiebreak = tb, setup_err = None, query_err = None, insert_err = None,
      begin_err = None, commit_err = None, rollback_err = None\<rparr>"

section \<open>Facts about 64-bit versions\<close>

lemma sint_MaxInt64: "sint MaxInt64 = 9223372036854775807"
  by (simp add: MaxInt64_def)

lemma le_MaxInt64: "v \<le>s MaxInt64"
proof -
  have "sint v < 2 ^ (LENGTH(64) - 1)" by (rule sint_lt)
  then show ?thesis by (simp add: word_sle_eq sint_MaxInt64)
qed

lemma sint_eqD: "sint (v :: int64) = sint w \<Longrightarrow> v = w"
  by (rule signed_word_eqI)

lemma sint_pred:
  fixes old :: int64
  assumes "sint old \<noteq> - (2 ^ 63)"
  shows "sint (old - 1) = sint old - 1"
proof -
  have "- (2 ^ (LENGTH(64) - 1)) \<le> sint old" by (rule sint_ge)
  with assms have lo: "- (2 ^ 63) \<le> sint old - 1" by simp
  have "sint old < 2 ^ (LENGTH(64) - 1)" by (rule sint_lt)
  then have hi: "sint old - 1 < 2 ^ 63" by simp
  have "sint (old - 1) = signed_take_bit (LENGTH(64) - 1) (sint old - sint (1 :: int64))"
    by (rule sint_word_diff)
  also have "\<dots> = signed_take_bit 63 (sint old - 1)" by simp
  also have "\<dots> = sint old - 1" using lo hi by (rule signed_take_bit_int_eq_self)
  finally show ?thesis .
qed

lemma down_range_single:
  fixes v old :: int64
  assumes "v \<le>s old" and "old - 1 <s v"
  shows "v = old"
proof (cases "sint old = - (2 ^ 63)")
  case True
  have "- (2 ^ (LENGTH(64) - 1)) \<le> sint v" by (rule sint_ge)
  with assms(1) True have "sint v = sint old" by (simp add: word_sle_eq)
  then show ?thesis by (rule sint_eqD)
next
  case False
  then have "sint (old - 1) = sint old - 1" by (rule sint_pred)
  with assms have "sint v = sint old" by (simp add: word_sle_eq word_sless_alt)
  then show ?thesis by (rule sint_eqD)
qed

lemma sint_word_of_nat:
  assumes "n < 2 ^ 63"
  shows "sint (word_of_nat n :: int64) = int n"
proof -
  have "sint (word_of_nat n :: int64) = signed_take_bit (LENGTH(64) - Suc 0) (int n)"
    using signed_of_nat [where 'a = int and 'b = 64, of n] by simp
  also have "\<dots> = int n"
    using assms by (intro signed_take_bit_int_eq_self) (simp_all add: nat_less_numeral_power_cancel_iff)
  finally show ?thesis .
qed

section \<open>Facts about the version table\<close>

lemma newest_subset: "set (newest rs) \<subseteq> set rs"
  by (simp add: newest_def)

lemma newest_greatest: "r \<in> set (newest rs) \<Longrightarrow> r' \<in> set rs \<Longrightarrow> snd r' \<le>s snd r"
  by (simp add: newest_def list_all_iff)

lemma ex_greatest: "rs \<noteq> [] \<Longrightarrow> \<exists>r \<in> set rs. \<forall>r' \<in> set rs. snd r' \<le>s snd (r :: int64 \<times> int64)"
proof (induction rs)
  case Nil
  then show ?case by simp
next
  case (Cons a rs)
  show ?case
  proof (cases "rs = []")
    case True
    then show ?thesis by simp
  next
    case False
    with Cons.IH obtain r where r: "r \<in> set rs" "\<forall>r' \<in> set rs. snd r' \<le>s snd r" by blast
    show ?thesis
    proof (cases "snd r \<le>s snd a")
      case True
      with r have "\<forall>r' \<in> set (a # rs). snd r' \<le>s snd a"
        by (auto simp: word_sle_eq)
      then show ?thesis by auto
    next
      case False
      with r have "\<forall>r' \<in> set (a # rs). snd r' \<le>s snd r"
        by (auto simp: word_sle_eq)
      with r(1) show ?thesis by auto
    qed
  qed
qed

lemma newest_nonempty: "rs \<noteq> [] \<Longrightarrow> newest rs \<noteq> []"
proof -
  assume "rs \<noteq> []"
  then obtain r where "r \<in> set rs" "\<forall>r' \<in> set rs. snd r' \<le>s snd r"
    using ex_greatest by blast
  then have "r \<in> set (newest rs)" by (simp add: newest_def list_all_iff)
  then show ?thesis by auto
qed

lemma first_row_None: "first_row e rs = None \<longleftrightarrow> rs = []"
proof
  assume "first_row e rs = None"
  then have "newest rs = []" by (simp add: first_row_def split: list.splits)
  then show "rs = []" using newest_nonempty by blast
next
  assume "rs = []"
  then show "first_row e rs = None" by (simp add: first_row_def newest_def)
qed

lemma first_row_Some:
  assumes "first_row e rs = Some v"
  shows "\<exists>t. (v, t) \<in> set rs \<and> (\<forall>r' \<in> set rs. snd r' \<le>s t)"
proof -
  from assms obtain c cs where n: "newest rs = c # cs"
    and v: "v = fst ((c # cs) ! (tiebreak e (c # cs) mod length (c # cs)))"
    by (auto simp: first_row_def split: list.splits)
  let ?r = "(c # cs) ! (tiebreak e (c # cs) mod length (c # cs))"
  have "tiebreak e (c # cs) mod length (c # cs) < length (c # cs)" by simp
  then have "?r \<in> set (c # cs)" by (rule nth_mem)
  then have m: "?r \<in> set (newest rs)" by (simp add: n)
  then have "?r \<in> set rs" using newest_subset by blast
  moreover have "\<forall>r' \<in> set rs. snd r' \<le>s snd ?r" using m newest_greatest by blast
  ultimately show ?thesis using v by (metis prod.collapse)
qed

lemma CurrentVersion_creates_table:
  "CurrentVersion e db0 = ((old, None), db) \<Longrightarrow>
   db = db0\<lparr>vtable := Some (case vtable db0 of None \<Rightarrow> [] | Some rs \<Rightarrow> rs)\<rparr>"
  by (auto simp: CurrentVersion_def setup_table_def split: option.splits)

lemma CurrentVersion_fresh:
  "CurrentVersion (working t tb) fresh = ((0, None), fresh\<lparr>vtable := Some []\<rparr>)"
  by (simp add: CurrentVersion_def setup_table_def working_def fresh_def first_row_def newest_def
      table_rows_def)

lemma CurrentVersion_single:
  "setup_err e = None \<Longrightarrow> query_err e = None \<Longrightarrow> vtable db = Some [(v, t)] \<Longrightarrow>
   CurrentVersion e db = ((v, None), db)"
  by (simp add: CurrentVersion_def setup_table_def table_rows_def first_row_def newest_def
      word_sle_eq)

lemma SetVersion_error:
  "SetVersion e v db = (db', Some err) \<Longrightarrow> \<exists>c. err = SetVersionFailed v c"
  by (auto simp: SetVersion_def split: option.splits)

section \<open>Facts about the closure and the transaction\<close>

lemma effects_Nil: "effects act [] db = db"
  by (simp add: effects_def)

lemma effects_Cons: "effects act (m # ms) db = effects act ms (fst (act m db))"
  by (simp add: effects_def)

lemma effects_snoc: "effects act (ms @ [m]) db = fst (act m (effects act ms db))"
  by (simp add: effects_def)

lemma effects_vtable:
  "\<forall>m \<in> set ms. \<forall>d. vtable (fst (act m d)) = vtable d \<Longrightarrow> vtable (effects act ms db) = vtable db"
  by (induction ms arbitrary: db) (simp_all add: effects_Nil effects_Cons)

lemma effects_take_Suc:
  "k < length p \<Longrightarrow> effects act (take (Suc k) p) db = fst (act (p ! k) (effects act (take k p) db))"
  by (simp add: take_Suc_conv_app_nth effects_snoc)

lemma invocations_simps:
  "invocations dir [] = []"
  "invocations dir (m # ms) = (dir, version m) # invocations dir ms"
  by (simp_all add: invocations_def)

lemma list_all_upt: "list_all P [0..<k] \<longleftrightarrow> (\<forall>i<k. P i)"
  by (auto simp: list_all_iff)

lemma fails_at_0:
  "fails_at act (m # ms) db 0 c \<longleftrightarrow> snd (act m db) = Some c"
  by (simp add: fails_at_def effects_Nil)

lemma fails_at_Suc:
  "fails_at act (m # ms) db (Suc k) c \<longleftrightarrow>
     snd (act m db) = None \<and> fails_at act ms (fst (act m db)) k c"
  unfolding fails_at_def list_all_upt
  by (auto simp: All_less_Suc2 effects_Nil effects_Cons)

lemma fails_at_nonempty: "fails_at act p db k c \<Longrightarrow> p \<noteq> []"
  by (auto simp: fails_at_def)

lemma fn_loop_fails:
  "fails_at act p db k c \<Longrightarrow>
   fn_loop act wrap dir p (nv, tr, db) =
     ((version (p ! k), tr @ invocations dir (take (Suc k) p), effects act (take (Suc k) p) db),
      Some (wrap (version (p ! k)) c))"
proof (induction p arbitrary: k nv tr db)
  case Nil
  then show ?case by (simp add: fails_at_def)
next
  case (Cons m ms)
  show ?case
  proof (cases k)
    case 0
    with Cons.prems have "snd (act m db) = Some c" by (simp add: fails_at_0)
    then show ?thesis using 0
      by (cases "act m db") (simp add: invocations_simps effects_Cons effects_Nil)
  next
    case (Suc j)
    with Cons.prems have ok: "snd (act m db) = None" and rest: "fails_at act ms (fst (act m db)) j c"
      by (simp_all add: fails_at_Suc)
    from Cons.IH [OF rest] ok show ?thesis using Suc
      by (cases "act m db") (simp add: invocations_simps effects_Cons)
  qed
qed

lemma all_succeed_Cons:
  "all_succeed act (m # ms) db \<longleftrightarrow> snd (act m db) = None \<and> all_succeed act ms (fst (act m db))"
  unfolding all_succeed_def list_all_upt
  by (auto simp: All_less_Suc2 effects_Nil effects_Cons)

lemma fn_loop_succeeds:
  "all_succeed act p db \<Longrightarrow>
   fn_loop act wrap dir p (nv, tr, db) =
     ((if p = [] then nv else version (last p), tr @ invocations dir p, effects act p db), None)"
proof (induction p arbitrary: nv tr db)
  case Nil
  then show ?case by (simp add: invocations_simps effects_Nil)
next
  case (Cons m ms)
  from Cons.prems have ok: "snd (act m db) = None" and rest: "all_succeed act ms (fst (act m db))"
    by (simp_all add: all_succeed_Cons)
  from Cons.IH [OF rest] ok show ?case
    by (cases "act m db") (simp add: invocations_simps effects_Cons)
qed

lemma fn_loop_error:
  "fn_loop act wrap dir p s = (s', Some err) \<Longrightarrow> \<exists>v c. err = wrap v c"
proof (induction p arbitrary: s)
  case Nil
  then show ?case by simp
next
  case (Cons m ms)
  obtain nv tr db where s: "s = (nv, tr, db)" by (cases s) auto
  obtain db' r where a: "act m db = (db', r)" by (cases "act m db") auto
  show ?case
  proof (cases r)
    case None
    with Cons.prems s a have "fn_loop act wrap dir ms (version m, tr @ [(dir, version m)], db') = (s', Some err)"
      by simp
    then show ?thesis by (rule Cons.IH)
  next
    case (Some c)
    with Cons.prems s a show ?thesis by auto
  qed
qed

lemma fn_fails:
  "fails_at act p db k c \<Longrightarrow>
   fn act wrap dir e p (nv, tr, db) =
     ((version (p ! k), tr @ invocations dir (take (Suc k) p), effects act (take (Suc k) p) db),
      Some (wrap (version (p ! k)) c))"
  by (simp add: fn_def fn_loop_fails)

lemma fn_error:
  assumes "fn act wrap dir e p s = (s', Some err)"
  shows "(\<exists>v c. err = wrap v c) \<or> (\<exists>v c. err = SetVersionFailed v c)"
proof (cases "fn_loop act wrap dir p s")
  case (Pair s1 r)
  show ?thesis
  proof (cases r)
    case None
    obtain nv tr db where s1: "s1 = (nv, tr, db)" by (cases s1) auto
    obtain db' r' where sv: "SetVersion e nv db = (db', r')" by (cases "SetVersion e nv db") auto
    from assms Pair None s1 sv have "r' = Some err" by (simp add: fn_def)
    with sv show ?thesis using SetVersion_error by blast
  next
    case (Some c)
    with assms Pair have "fn_loop act wrap dir p s = (s', Some err)" by (simp add: fn_def)
    then show ?thesis using fn_loop_error by blast
  qed
qed

lemma runTx_fn_fails:
  "begin_err e = None \<Longrightarrow> fails_at act p db k c \<Longrightarrow>
   runTx e (fn act wrap dir e p) (nv, tr, db) =
     ((version (p ! k), tr @ invocations dir (take (Suc k) p), db),
      Some (case rollback_err e of
              Some r \<Rightarrow> RollbackFailed r
            | None \<Rightarrow> RolledBack (wrap (version (p ! k)) c)))"
  by (simp add: runTx_def fn_fails split: option.splits)

lemma runTx_error:
  "runTx e f s = (s', Some err) \<Longrightarrow>
     (\<exists>c. err = BeginFailed c) \<or> (\<exists>c. err = RollbackFailed c) \<or>
     (\<exists>c. err = RolledBack c) \<or> (\<exists>c. err = CommitFailed c)"
  by (auto simp: runTx_def split: option.splits prod.splits)

section \<open>Facts about upTo and downTo\<close>

lemma set_sortedMigrations: "set (sortedMigrations migs) = set migs"
  by (simp add: sortedMigrations_def)

lemma sorted_versions:
  assumes "n < 2 ^ 63"
    and "mset (map version migs) = mset (map word_of_nat [1..<Suc n])"
  shows "map version (sortedMigrations migs) = map word_of_nat [1..<Suc n]"
proof -
  let ?f = "\<lambda>m. sint (version m :: int64)"
  let ?s = "sortedMigrations migs"
  have eq: "map (\<lambda>i. sint (word_of_nat i :: int64)) [1..<Suc n] = map int [1..<Suc n]"
  proof (rule map_cong [OF refl])
    fix x assume "x \<in> set [1..<Suc n]"
    then have "x \<le> n" by auto
    from this assms(1) have "x < 2 ^ 63" by (rule le_less_trans)
    then show "sint (word_of_nat x :: int64) = int x" by (rule sint_word_of_nat)
  qed
  have "mset (map ?f migs) = mset (map sint (map version migs))"
    by (simp only: map_map comp_def)
  also have "\<dots> = image_mset sint (mset (map version migs))"
    by (simp only: mset_map)
  also have "\<dots> = image_mset sint (mset (map word_of_nat [1..<Suc n] :: int64 list))"
    by (simp only: assms(2))
  also have "\<dots> = mset (map sint (map word_of_nat [1..<Suc n] :: int64 list))"
    by (simp only: mset_map)
  also have "\<dots> = mset (map (\<lambda>i. sint (word_of_nat i :: int64)) [1..<Suc n])"
    by (simp only: map_map comp_def)
  also have "\<dots> = mset (map int [1..<Suc n])"
    by (simp only: eq)
  finally have m: "mset (map ?f migs) = mset (map int [1..<Suc n])" .
  have "sorted (map ?f ?s)" by (simp add: sortedMigrations_def)
  moreover have "mset (map ?f ?s) = mset (map ?f migs)" by (simp add: sortedMigrations_def)
  ultimately have a: "sort (map ?f migs) = map ?f ?s" by (intro properties_for_sort) simp_all
  have "sorted (map int [1..<Suc n])" by (simp add: sorted_map del: upt_Suc)
  then have b: "sort (map ?f migs) = map int [1..<Suc n]" using m by (intro properties_for_sort) simp_all
  from a b have c: "map ?f ?s = map int [1..<Suc n]" by simp
  have "map version ?s = map (\<lambda>i. word_of_int i :: int64) (map ?f ?s)"
    by (simp add: comp_def)
  also have "\<dots> = map word_of_nat [1..<Suc n]" by (simp add: c comp_def del: upt_Suc)
  finally show ?thesis .
qed

lemma upTo_NoWork:
  "upTo_pending migs old target = [] \<Longrightarrow> upTo e migs tx old target db = ((0, Some NoWork), [], db)"
  by (simp add: upTo_def)

lemma downTo_NoWork:
  "downTo_pending migs old target = [] \<Longrightarrow> downTo e migs tx old target db = ((0, Some NoWork), [], db)"
  by (simp add: downTo_def)

lemma Up_pending_empty:
  "list_all (\<lambda>m. \<not> old <s version m) migs \<Longrightarrow> upTo_pending migs old MaxInt64 = []"
  by (auto simp: upTo_pending_def filter_empty_conv set_sortedMigrations list_all_iff)

lemma Down_pending_empty:
  "list_all (\<lambda>m. version m \<noteq> old) migs \<Longrightarrow> downTo_pending migs old (old - 1) = []"
  by (auto simp: downTo_pending_def filter_empty_conv set_sortedMigrations list_all_iff
      dest: down_range_single)

lemma upTo_fails:
  assumes "fails_at up (upTo_pending migs old target) db k c"
  shows "upTo e migs False old target db =
     ((version (upTo_pending migs old target ! k),
       Some (StepUp (version (upTo_pending migs old target ! k)) c)),
      invocations MigrationUp (take (Suc k) (upTo_pending migs old target)),
      effects up (take (Suc k) (upTo_pending migs old target)) db)"
proof -
  from assms have "upTo_pending migs old target \<noteq> []" by (rule fails_at_nonempty)
  then obtain m ms where p: "upTo_pending migs old target = m # ms"
    by (cases "upTo_pending migs old target") auto
  show ?thesis
    using fn_fails [OF assms, of StepUp MigrationUp e 0 "[]"]
    by (simp add: upTo_def p Let_def)
qed

lemma upTo_fails_tx:
  assumes "begin_err e = None" and "fails_at up (upTo_pending migs old target) db k c"
  shows "upTo e migs True old target db =
     ((version (upTo_pending migs old target ! k),
       Some (case rollback_err e of
               Some r \<Rightarrow> RollbackFailed r
             | None \<Rightarrow> RolledBack (StepUp (version (upTo_pending migs old target ! k)) c))),
      invocations MigrationUp (take (Suc k) (upTo_pending migs old target)),
      db)"
proof -
  from assms(2) have "upTo_pending migs old target \<noteq> []" by (rule fails_at_nonempty)
  then obtain m ms where p: "upTo_pending migs old target = m # ms"
    by (cases "upTo_pending migs old target") auto
  show ?thesis
    using runTx_fn_fails [OF assms, of StepUp MigrationUp 0 "[]"]
    by (simp add: upTo_def p Let_def)
qed

lemma downTo_fails:
  assumes "fails_at down (downTo_pending migs old target) db k c"
  shows "downTo e migs False old target db =
     ((version (downTo_pending migs old target ! k) - 1,
       Some (StepDown (version (downTo_pending migs old target ! k)) c)),
      invocations MigrationDown (take (Suc k) (downTo_pending migs old target)),
      effects down (take (Suc k) (downTo_pending migs old target)) db)"
proof -
  from assms have "downTo_pending migs old target \<noteq> []" by (rule fails_at_nonempty)
  then obtain m ms where p: "downTo_pending migs old target = m # ms"
    by (cases "downTo_pending migs old target") auto
  show ?thesis
    using fn_fails [OF assms, of StepDown MigrationDown e 0 "[]"]
    by (simp add: downTo_def p Let_def)
qed

lemma downTo_fails_tx:
  assumes "begin_err e = None" and "fails_at down (downTo_pending migs old target) db k c"
  shows "downTo e migs True old target db =
     ((version (downTo_pending migs old target ! k) - 1,
       Some (case rollback_err e of
               Some r \<Rightarrow> RollbackFailed r
             | None \<Rightarrow> RolledBack (StepDown (version (downTo_pending migs old target ! k)) c))),
      invocations MigrationDown (take (Suc k) (downTo_pending migs old target)),
      db)"
proof -
  from assms(2) have "downTo_pending migs old target \<noteq> []" by (rule fails_at_nonempty)
  then obtain m ms where p: "downTo_pending migs old target = m # ms"
    by (cases "downTo_pending migs old target") auto
  show ?thesis
    using runTx_fn_fails [OF assms, of StepDown MigrationDown 0 "[]"]
    by (simp add: downTo_def p Let_def)
qed

lemma application_fails:
  assumes "fails_at (action dir) (pending dir migs old target) db k c"
  shows "application dir e migs False old target db =
     ((reported dir (version (pending dir migs old target ! k)),
       Some (step_error dir (version (pending dir migs old target ! k)) c)),
      invocations dir (take (Suc k) (pending dir migs old target)),
      effects (action dir) (take (Suc k) (pending dir migs old target)) db)"
  using assms
  by (cases dir)
    (simp_all add: application_def pending_def action_def step_error_def reported_def
      upTo_fails downTo_fails)

lemma application_fails_tx:
  assumes "begin_err e = None"
    and "fails_at (action dir) (pending dir migs old target) db k c"
  shows "application dir e migs True old target db =
     ((reported dir (version (pending dir migs old target ! k)),
       Some (case rollback_err e of
               Some r \<Rightarrow> RollbackFailed r
             | None \<Rightarrow>
                 RolledBack (step_error dir (version (pending dir migs old target ! k)) c))),
      invocations dir (take (Suc k) (pending dir migs old target)),
      db)"
  using assms
  by (cases dir)
    (simp_all add: application_def pending_def action_def step_error_def reported_def
      upTo_fails_tx downTo_fails_tx split: option.splits)

lemma upTo_not_NotFound: "snd (fst (upTo e migs tx old target db)) \<noteq> Some (NotFound v)"
proof (cases "upTo_pending migs old target")
  case Nil
  then show ?thesis by (simp add: upTo_NoWork)
next
  case (Cons m ms)
  let ?f = "fn up StepUp MigrationUp e (m # ms)"
  show ?thesis
  proof (cases tx)
    case True
    obtain s' r where x: "runTx e ?f (0, [], db) = (s', r)" by (cases "runTx e ?f (0, [], db)") auto
    have "r \<noteq> Some (NotFound v)" using runTx_error [of e ?f "(0, [], db)" s' "NotFound v"] x by auto
    with x True Cons show ?thesis by (simp add: upTo_def split: prod.splits)
  next
    case False
    obtain s' r where x: "?f (0, [], db) = (s', r)" by (cases "?f (0, [], db)") auto
    have "r \<noteq> Some (NotFound v)"
      using fn_error [of up StepUp MigrationUp e "m # ms" "(0, [], db)" s' "NotFound v"] x by auto
    with x False Cons show ?thesis by (simp add: upTo_def split: prod.splits)
  qed
qed

lemma downTo_not_NotFound: "snd (fst (downTo e migs tx old target db)) \<noteq> Some (NotFound v)"
proof (cases "downTo_pending migs old target")
  case Nil
  then show ?thesis by (simp add: downTo_NoWork)
next
  case (Cons m ms)
  let ?f = "fn down StepDown MigrationDown e (m # ms)"
  show ?thesis
  proof (cases tx)
    case True
    obtain s' r where x: "runTx e ?f (0, [], db) = (s', r)" by (cases "runTx e ?f (0, [], db)") auto
    have "r \<noteq> Some (NotFound v)" using runTx_error [of e ?f "(0, [], db)" s' "NotFound v"] x by auto
    with x True Cons show ?thesis by (simp add: downTo_def split: prod.splits)
  next
    case False
    obtain s' r where x: "?f (0, [], db) = (s', r)" by (cases "?f (0, [], db)") auto
    have "r \<noteq> Some (NotFound v)"
      using fn_error [of down StepDown MigrationDown e "m # ms" "(0, [], db)" s' "NotFound v"] x by auto
    with x False Cons show ?thesis by (simp add: downTo_def split: prod.splits)
  qed
qed

section \<open>Facts about a batch that succeeds\<close>

lemma all_succeed_always:
  assumes "\<forall>m \<in> set p. \<forall>d. snd (act m d) = None"
  shows "all_succeed act p db"
  unfolding all_succeed_def list_all_upt using assms by simp

lemma effects_keeps_table:
  "\<forall>m \<in> set ms. \<forall>d. vtable d \<noteq> None \<longrightarrow> vtable (fst (act m d)) \<noteq> None \<Longrightarrow>
   vtable db \<noteq> None \<Longrightarrow> vtable (effects act ms db) \<noteq> None"
  by (induction ms arbitrary: db) (simp_all add: effects_Nil effects_Cons)

lemma SetVersion_ok:
  "insert_err e = None \<Longrightarrow> vtable db \<noteq> None \<Longrightarrow>
   SetVersion e v db = (db\<lparr>vtable := Some (table_rows db @ [(v, now e)])\<rparr>, None)"
  by (auto simp: SetVersion_def table_rows_def split: option.splits)

lemma fn_succeeds:
  assumes "all_succeed act p db" and "p \<noteq> []" and "insert_err e = None"
    and "vtable (effects act p db) \<noteq> None"
  shows "fn act wrap dir e p (nv, tr, db) =
     ((version (last p), tr @ invocations dir p,
       (effects act p db)\<lparr>vtable :=
          Some (table_rows (effects act p db) @ [(version (last p), now e)])\<rparr>), None)"
  using assms by (simp add: fn_def fn_loop_succeeds SetVersion_ok)

lemma runTx_succeeds:
  "begin_err e = None \<Longrightarrow> commit_err e = None \<Longrightarrow> f s = (s', None) \<Longrightarrow>
   runTx e f s = (s', None)"
  by (cases s') (simp add: runTx_def)

lemma upTo_nonempty:
  assumes "upTo_pending migs old target \<noteq> []"
  shows "upTo e migs tx old target db =
     (case (if tx then runTx e (fn up StepUp MigrationUp e (upTo_pending migs old target))
            else fn up StepUp MigrationUp e (upTo_pending migs old target)) (0, [], db) of
        ((newVersion, tr, db'), err) \<Rightarrow> ((newVersion, err), tr, db'))"
proof -
  obtain m ms where p: "upTo_pending migs old target = m # ms"
    using assms by (cases "upTo_pending migs old target") auto
  show ?thesis by (simp add: upTo_def Let_def p)
qed

lemma upTo_succeeds:
  assumes "all_succeed up (upTo_pending migs old target) db"
    and "upTo_pending migs old target \<noteq> []"
    and "insert_err e = None"
    and "vtable (effects up (upTo_pending migs old target) db) \<noteq> None"
    and "tx \<longrightarrow> begin_err e = None \<and> commit_err e = None"
  shows "upTo e migs tx old target db =
     ((version (last (upTo_pending migs old target)), None),
      invocations MigrationUp (upTo_pending migs old target),
      (effects up (upTo_pending migs old target) db)\<lparr>vtable :=
         Some (table_rows (effects up (upTo_pending migs old target) db) @
               [(version (last (upTo_pending migs old target)), now e)])\<rparr>)"
proof -
  let ?p = "upTo_pending migs old target"
  have f: "fn up StepUp MigrationUp e ?p (0, [], db) =
     ((version (last ?p), invocations MigrationUp ?p,
       (effects up ?p db)\<lparr>vtable :=
          Some (table_rows (effects up ?p db) @ [(version (last ?p), now e)])\<rparr>), None)"
    using fn_succeeds [OF assms(1-4), of StepUp MigrationUp 0 "[]"] by simp
  show ?thesis
  proof (cases tx)
    case True
    with assms(5) have "begin_err e = None" "commit_err e = None" by simp_all
    from runTx_succeeds [where f = "fn up StepUp MigrationUp e ?p" and s = "(0, [], db)",
        OF this f]
    show ?thesis by (simp add: upTo_nonempty [OF assms(2)] True)
  next
    case False
    with f show ?thesis by (simp add: upTo_nonempty [OF assms(2)])
  qed
qed

lemma downTo_nonempty:
  assumes "downTo_pending migs old target \<noteq> []"
  shows "downTo e migs tx old target db =
     (case (if tx then runTx e (fn down StepDown MigrationDown e (downTo_pending migs old target))
            else fn down StepDown MigrationDown e (downTo_pending migs old target)) (0, [], db) of
        ((newVersion, tr, db'), err) \<Rightarrow> ((newVersion - 1, err), tr, db'))"
proof -
  obtain m ms where p: "downTo_pending migs old target = m # ms"
    using assms by (cases "downTo_pending migs old target") auto
  show ?thesis by (simp add: downTo_def Let_def p)
qed

lemma downTo_succeeds:
  assumes "all_succeed down (downTo_pending migs old target) db"
    and "downTo_pending migs old target \<noteq> []"
    and "insert_err e = None"
    and "vtable (effects down (downTo_pending migs old target) db) \<noteq> None"
    and "tx \<longrightarrow> begin_err e = None \<and> commit_err e = None"
  shows "downTo e migs tx old target db =
     ((version (last (downTo_pending migs old target)) - 1, None),
      invocations MigrationDown (downTo_pending migs old target),
      (effects down (downTo_pending migs old target) db)\<lparr>vtable :=
         Some (table_rows (effects down (downTo_pending migs old target) db) @
               [(version (last (downTo_pending migs old target)), now e)])\<rparr>)"
proof -
  let ?p = "downTo_pending migs old target"
  have f: "fn down StepDown MigrationDown e ?p (0, [], db) =
     ((version (last ?p), invocations MigrationDown ?p,
       (effects down ?p db)\<lparr>vtable :=
          Some (table_rows (effects down ?p db) @ [(version (last ?p), now e)])\<rparr>), None)"
    using fn_succeeds [OF assms(1-4), of StepDown MigrationDown 0 "[]"] by simp
  show ?thesis
  proof (cases tx)
    case True
    with assms(5) have "begin_err e = None" "commit_err e = None" by simp_all
    from runTx_succeeds [where f = "fn down StepDown MigrationDown e ?p" and s = "(0, [], db)",
        OF this f]
    show ?thesis by (simp add: downTo_nonempty [OF assms(2)] True)
  next
    case False
    with f show ?thesis by (simp add: downTo_nonempty [OF assms(2)])
  qed
qed

lemma first_row_same_version:
  assumes "rs \<noteq> []" and "\<forall>r \<in> set rs. fst r = v"
  shows "first_row e rs = Some v"
proof -
  from assms(1) obtain w where w: "first_row e rs = Some w"
    using first_row_None [of e rs] by (cases "first_row e rs") auto
  then obtain t where "(w, t) \<in> set rs" using first_row_Some by blast
  with assms(2) have "w = v" by auto
  with w show ?thesis by simp
qed

lemma CurrentVersion_same_version:
  assumes "setup_err e = None" and "query_err e = None" and "vtable db = Some rs"
    and "rs \<noteq> []" and "\<forall>r \<in> set rs. fst r = v"
  shows "CurrentVersion e db = ((v, None), db)"
  using assms first_row_same_version [OF assms(4,5), of e]
  by (simp add: CurrentVersion_def setup_table_def table_rows_def)

section \<open>Facts about the fixtures\<close>

lemma generateMigrations_3:
  "generateMigrations 3 = [test_migration 1 None, test_migration 2 None, test_migration 3 None]"
  by (simp add: generateMigrations_def upt_rec eval_nat_numeral)

lemma sorted_errorMigrations: "sortedMigrations errorMigrations = errorMigrations"
  by (simp add: sortedMigrations_def errorMigrations_def test_migration_def)

lemma pending_up_errorMigrations:
  "pending MigrationUp errorMigrations 0 MaxInt64 = errorMigrations"
  by (simp add: pending_def upTo_pending_def sorted_errorMigrations le_MaxInt64)
    (simp add: errorMigrations_def test_migration_def word_sless_alt)

lemma pending_down_errorMigrations:
  "pending MigrationDown errorMigrations 3 0 = rev errorMigrations"
  by (simp add: pending_def downTo_pending_def sorted_errorMigrations)
    (simp add: errorMigrations_def test_migration_def word_sless_alt word_sle_eq)

lemma fails_at_up_errorMigrations:
  "fails_at (action MigrationUp) errorMigrations db 1 (Cause ''err'')"
  by (simp add: fails_at_def action_def errorMigrations_def test_migration_def
      newMigrationFunc_def effects_def)

lemma fails_at_down_errorMigrations:
  "fails_at (action MigrationDown) (rev errorMigrations) db 1 (Cause ''err'')"
  by (simp add: fails_at_def action_def errorMigrations_def test_migration_def
      newMigrationFunc_def effects_def)

lemma fails_at_pending_up_errorMigrations:
  "fails_at (action MigrationUp) (pending MigrationUp errorMigrations 0 MaxInt64) db 1
     (Cause ''err'')"
  unfolding pending_up_errorMigrations by (rule fails_at_up_errorMigrations)

lemma fails_at_pending_down_errorMigrations:
  "fails_at (action MigrationDown) (pending MigrationDown errorMigrations 3 0) db 1
     (Cause ''err'')"
  unfolding pending_down_errorMigrations by (rule fails_at_down_errorMigrations)

lemma sorted_generateMigrations_3:
  "sortedMigrations (generateMigrations 3) = generateMigrations 3"
  by (simp add: sortedMigrations_def generateMigrations_3 test_migration_def)

lemma generateMigrations_succeed:
  "set p \<subseteq> set (generateMigrations 3) \<Longrightarrow> all_succeed up p db"
  "set p \<subseteq> set (generateMigrations 3) \<Longrightarrow> all_succeed down p db"
  by (rule all_succeed_always;
      auto simp: generateMigrations_3 test_migration_def newMigrationFunc_def)+

lemma working_simps:
  "now (working t tb) = t" "setup_err (working t tb) = None" "query_err (working t tb) = None"
  "insert_err (working t tb) = None" "begin_err (working t tb) = None"
  "commit_err (working t tb) = None" "rollback_err (working t tb) = None"
  by (simp_all add: working_def)

lemma Up_fresh:
  "Up (working t1 tb1) (generateMigrations 3) True fresh =
     ((0, 3, None), [(MigrationUp, 1), (MigrationUp, 2), (MigrationUp, 3)],
      \<lparr>vtable = Some [(3, t1)],
       user = [(1, MigrationUp), (2, MigrationUp), (3, MigrationUp)]\<rparr>)"
proof -
  let ?g = "generateMigrations 3"
  let ?d = "fresh\<lparr>vtable := Some []\<rparr>"
  have p: "upTo_pending ?g 0 MaxInt64 = ?g"
    by (simp add: upTo_pending_def sorted_generateMigrations_3 le_MaxInt64)
      (simp add: generateMigrations_3 test_migration_def word_sless_alt)
  have e: "effects up ?g ?d =
      \<lparr>vtable = Some [], user = [(1, MigrationUp), (2, MigrationUp), (3, MigrationUp)]\<rparr>"
    by (simp add: effects_def generateMigrations_3 test_migration_def newMigrationFunc_def
        fresh_def)
  have l: "version (last ?g) = 3" and i: "invocations MigrationUp ?g =
      [(MigrationUp, 1), (MigrationUp, 2), (MigrationUp, 3)]"
    by (simp_all add: invocations_def generateMigrations_3 test_migration_def)
  have "upTo (working t1 tb1) ?g True 0 MaxInt64 ?d =
     ((3, None), [(MigrationUp, 1), (MigrationUp, 2), (MigrationUp, 3)],
      \<lparr>vtable = Some [(3, t1)],
       user = [(1, MigrationUp), (2, MigrationUp), (3, MigrationUp)]\<rparr>)"
    using upTo_succeeds [of ?g 0 MaxInt64 ?d "working t1 tb1" True]
    by (simp add: p e l i generateMigrations_succeed working_simps table_rows_def)
      (simp add: generateMigrations_3)
  then show ?thesis by (simp add: Up_def CurrentVersion_fresh)
qed

lemma Down_from_3:
  "Down (working t2 tb2) (generateMigrations 3) True
     \<lparr>vtable = Some [(3, t1)],
      user = [(1, MigrationUp), (2, MigrationUp), (3, MigrationUp)]\<rparr> =
     ((3, 2, None), [(MigrationDown, 3)],
      \<lparr>vtable = Some [(3, t1), (3, t2)],
       user = [(1, MigrationUp), (2, MigrationUp), (3, MigrationUp), (3, MigrationDown)]\<rparr>)"
proof -
  let ?g = "generateMigrations 3"
  let ?d = "\<lparr>vtable = Some [(3, t1)],
      user = [(1, MigrationUp), (2, MigrationUp), (3, MigrationUp)]\<rparr> :: runs database"
  have c: "CurrentVersion (working t2 tb2) ?d = ((3, None), ?d)"
    by (rule CurrentVersion_single) (simp_all add: working_simps)
  have p: "downTo_pending ?g 3 2 = [test_migration 3 None]"
    by (simp add: downTo_pending_def sorted_generateMigrations_3)
      (simp add: generateMigrations_3 test_migration_def word_sless_alt word_sle_eq)
  have e: "effects down [test_migration 3 None] ?d =
      \<lparr>vtable = Some [(3, t1)],
       user = [(1, MigrationUp), (2, MigrationUp), (3, MigrationUp), (3, MigrationDown)]\<rparr>"
    by (simp add: effects_def test_migration_def newMigrationFunc_def)
  have l: "version (test_migration 3 None) = 3"
    and i: "invocations MigrationDown [test_migration 3 None] = [(MigrationDown, 3)]"
    by (simp_all add: invocations_def test_migration_def)
  have s: "all_succeed down [test_migration 3 None] ?d"
    by (rule generateMigrations_succeed) (simp add: generateMigrations_3)
  have "downTo (working t2 tb2) ?g True 3 2 ?d =
     ((2, None), [(MigrationDown, 3)],
      \<lparr>vtable = Some [(3, t1), (3, t2)],
       user = [(1, MigrationUp), (2, MigrationUp), (3, MigrationUp), (3, MigrationDown)]\<rparr>)"
    using downTo_succeeds [of ?g 3 2 ?d "working t2 tb2" True] s
    by (simp add: p e l i working_simps table_rows_def)
  then show ?thesis by (simp add: Down_def c)
qed

lemma ToVersion_1_after_Down:
  "ToVersion (working t3 tb3) (generateMigrations 3) True 1
     \<lparr>vtable = Some [(3, t1), (3, t2)],
      user = [(1, MigrationUp), (2, MigrationUp), (3, MigrationUp), (3, MigrationDown)]\<rparr> =
     ((3, 1, None), [(MigrationDown, 3), (MigrationDown, 2)],
      \<lparr>vtable = Some [(3, t1), (3, t2), (2, t3)],
       user = [(1, MigrationUp), (2, MigrationUp), (3, MigrationUp), (3, MigrationDown),
               (3, MigrationDown), (2, MigrationDown)]\<rparr>)"
proof -
  let ?g = "generateMigrations 3"
  let ?d = "\<lparr>vtable = Some [(3, t1), (3, t2)],
      user = [(1, MigrationUp), (2, MigrationUp), (3, MigrationUp), (3, MigrationDown)]\<rparr>
      :: runs database"
  let ?p = "[test_migration 3 None, test_migration 2 None]"
  have c: "CurrentVersion (working t3 tb3) ?d = ((3, None), ?d)"
    by (rule CurrentVersion_same_version [where rs = "[(3, t1), (3, t2)]"])
      (simp_all add: working_simps)
  have p: "downTo_pending ?g 3 1 = ?p"
    by (simp add: downTo_pending_def sorted_generateMigrations_3)
      (simp add: generateMigrations_3 test_migration_def word_sless_alt word_sle_eq)
  have e: "effects down ?p ?d =
      \<lparr>vtable = Some [(3, t1), (3, t2)],
       user = [(1, MigrationUp), (2, MigrationUp), (3, MigrationUp), (3, MigrationDown),
               (3, MigrationDown), (2, MigrationDown)]\<rparr>"
    by (simp add: effects_def test_migration_def newMigrationFunc_def)
  have l: "version (test_migration 2 None) = 2"
    and i: "invocations MigrationDown ?p = [(MigrationDown, 3), (MigrationDown, 2)]"
    by (simp_all add: invocations_def test_migration_def)
  have s: "all_succeed down ?p ?d"
    by (rule generateMigrations_succeed) (simp add: generateMigrations_3)
  have f: "list_ex (\<lambda>m. version m = 1) ?g"
    by (simp add: generateMigrations_3 test_migration_def)
  have "downTo (working t3 tb3) ?g True 3 1 ?d =
     ((1, None), [(MigrationDown, 3), (MigrationDown, 2)],
      \<lparr>vtable = Some [(3, t1), (3, t2), (2, t3)],
       user = [(1, MigrationUp), (2, MigrationUp), (3, MigrationUp), (3, MigrationDown),
               (3, MigrationDown), (2, MigrationDown)]\<rparr>)"
    using downTo_succeeds [of ?g 3 1 ?d "working t3 tb3" True] s
    by (simp add: p e l i working_simps table_rows_def)
  then show ?thesis by (simp add: ToVersion_def c f word_sless_alt)
qed

section \<open>The scenario Up, Down, ToVersion 1\<close>

text \<open>
  Claim C1: with the steps 1, 2 and 3 on a fresh database, \<open>Up\<close>, \<open>Down\<close> and
  \<open>ToVersion 1\<close> in transactions return \<open>(0, 3)\<close>, \<open>(3, 2)\<close> and \<open>(2, 1)\<close>, and
  the third call runs the down function of step 2 only. The code does not do this:
  \<open>downTo\<close> returns \<open>newVersion - 1\<close> but records \<open>newVersion\<close>, the version of the
  last step it rolled back, so \<open>Down\<close> from version 3 returns 2 and records 3. The
  third call therefore finds the current version 3, returns \<open>(3, 1)\<close> and runs the
  down functions of steps 3 and 2, the first of them for the second time; it records
  the version 2. This holds whatever the clock reads at the three calls and however the
  engine orders records of equal timestamp.
\<close>

theorem scenario_Down_records_the_version_it_left:
  "Up (working t1 tb1) (generateMigrations 3) True fresh =
     ((0, 3, None), [(MigrationUp, 1), (MigrationUp, 2), (MigrationUp, 3)],
      \<lparr>vtable = Some [(3, t1)],
       user = [(1, MigrationUp), (2, MigrationUp), (3, MigrationUp)]\<rparr>) \<and>
   Down (working t2 tb2) (generateMigrations 3) True
     \<lparr>vtable = Some [(3, t1)],
      user = [(1, MigrationUp), (2, MigrationUp), (3, MigrationUp)]\<rparr> =
     ((3, 2, None), [(MigrationDown, 3)],
      \<lparr>vtable = Some [(3, t1), (3, t2)],
       user = [(1, MigrationUp), (2, MigrationUp), (3, MigrationUp), (3, MigrationDown)]\<rparr>) \<and>
   ToVersion (working t3 tb3) (generateMigrations 3) True 1
     \<lparr>vtable = Some [(3, t1), (3, t2)],
      user = [(1, MigrationUp), (2, MigrationUp), (3, MigrationUp), (3, MigrationDown)]\<rparr> =
     ((3, 1, None), [(MigrationDown, 3), (MigrationDown, 2)],
      \<lparr>vtable = Some [(3, t1), (3, t2), (2, t3)],
       user = [(1, MigrationUp), (2, MigrationUp), (3, MigrationUp), (3, MigrationDown),
               (3, MigrationDown), (2, MigrationDown)]\<rparr>)"
  by (simp only: Up_fresh Down_from_3 ToVersion_1_after_Down simp_thms)

section \<open>Up from version 0\<close>

text \<open>
  Claim C2: for a registry that holds exactly the steps of versions \<open>1..n\<close>
  (\<open>1 \<le> n\<close>, in any order of registration) and a database at version 0, \<open>Up\<close>
  returns \<open>(0, n, nil)\<close> and calls the up function of every step once, in ascending
  order of version, and no other function; it then records the version \<open>n\<close>. The
  claim takes for granted that the run goes well: every up function succeeds on the
  database that the steps before it have produced, the version table is still there when
  the version is recorded, and the driver works.
\<close>

theorem Up_runs_all_steps_in_order:
  assumes "0 < n" and "n < 2 ^ 63"
    and "mset (map version migs) = mset (map word_of_nat [1..<Suc n])"
    and "CurrentVersion e db0 = ((0, None), db)"
    and "all_succeed up (sortedMigrations migs) db"
    and "vtable (effects up (sortedMigrations migs) db) \<noteq> None"
    and "insert_err e = None"
    and "tx \<longrightarrow> begin_err e = None \<and> commit_err e = None"
  shows "fst (Up e migs tx db0) = (0, word_of_nat n, None) \<and>
         fst (snd (Up e migs tx db0)) = map (\<lambda>i. (MigrationUp, word_of_nat i)) [1..<Suc n] \<and>
         table_rows (snd (snd (Up e migs tx db0))) =
           table_rows (effects up (sortedMigrations migs) db) @ [(word_of_nat n, now e)]"
proof -
  let ?p = "sortedMigrations migs"
  have sv: "map version ?p = map word_of_nat [1..<Suc n]"
    by (rule sorted_versions [OF assms(2,3)])
  have len: "length ?p = n"
    using arg_cong [OF sv, of length] by simp
  with assms(1) have ne: "?p \<noteq> []" by auto
  have pos: "0 <s version m \<and> version m \<le>s MaxInt64" if "m \<in> set ?p" for m
  proof -
    from that have "version m \<in> set (map version ?p)" by simp
    then obtain i where i: "1 \<le> i" "i \<le> n" "version m = word_of_nat i"
      unfolding sv by auto
    from i(2) assms(2) have "i < 2 ^ 63" by (rule le_less_trans)
    then have "sint (version m) = int i" unfolding i(3) by (rule sint_word_of_nat)
    with i(1) show ?thesis by (simp add: word_sless_alt le_MaxInt64)
  qed
  then have pend: "upTo_pending migs 0 MaxInt64 = ?p"
    by (simp add: upTo_pending_def)
  have a: "all_succeed up (upTo_pending migs 0 MaxInt64) db"
    unfolding pend by (rule assms(5))
  have b: "upTo_pending migs 0 MaxInt64 \<noteq> []" unfolding pend by (rule ne)
  have c: "vtable (effects up (upTo_pending migs 0 MaxInt64) db) \<noteq> None"
    unfolding pend by (rule assms(6))
  have lastv: "version (last ?p) = word_of_nat n"
  proof -
    have "version (last ?p) = last (map version ?p)" using ne by (simp add: last_map)
    also have "\<dots> = last (map word_of_nat [1..<Suc n])" by (simp only: sv)
    also have "\<dots> = word_of_nat n" using assms(1) by (simp add: last_map)
    finally show ?thesis .
  qed
  have inv: "invocations MigrationUp ?p = map (\<lambda>i. (MigrationUp, word_of_nat i)) [1..<Suc n]"
  proof -
    have "invocations MigrationUp ?p = map (\<lambda>v. (MigrationUp, v)) (map version ?p)"
      by (simp add: invocations_def comp_def)
    also have "\<dots> = map (\<lambda>i. (MigrationUp, word_of_nat i)) [1..<Suc n]"
      by (simp only: sv map_map comp_def)
    finally show ?thesis .
  qed
  have "upTo e migs tx 0 MaxInt64 db =
     ((word_of_nat n, None), map (\<lambda>i. (MigrationUp, word_of_nat i)) [1..<Suc n],
      (effects up ?p db)\<lparr>vtable :=
         Some (table_rows (effects up ?p db) @ [(word_of_nat n, now e)])\<rparr>)"
    using upTo_succeeds [OF a b assms(7) c assms(8)] by (simp only: pend lastv inv)
  then show ?thesis
    by (simp add: Up_def assms(4) table_rows_def)
qed

text \<open>
  Two steps registered in descending order, of which the second runs only on what the
  first has done: its up function fails unless the row of step 1 is in
  \<open>migrations_run\<close>. \<open>Up\<close> returns \<open>(0, 2, nil)\<close> and calls up 1, then up 2.
\<close>

theorem Up_runs_all_steps_in_order_witness:
  "mset (map version
     [\<lparr>version = 2,
       up = (\<lambda>d. if (1, MigrationUp) \<in> set (user d)
                  then (d\<lparr>user := user d @ [(2, MigrationUp)]\<rparr>, None)
                  else (d, Some (Cause ''no such table''))),
       down = newMigrationFunc 2 MigrationDown None, file_name = ''2_test.go''\<rparr>,
      test_migration 1 None]) = mset (map word_of_nat [1..<Suc 2]) \<and>
   CurrentVersion (working 7 (\<lambda>rs. 0)) fresh = ((0, None), fresh\<lparr>vtable := Some []\<rparr>) \<and>
   all_succeed up (sortedMigrations
     [\<lparr>version = 2,
       up = (\<lambda>d. if (1, MigrationUp) \<in> set (user d)
                  then (d\<lparr>user := user d @ [(2, MigrationUp)]\<rparr>, None)
                  else (d, Some (Cause ''no such table''))),
       down = newMigrationFunc 2 MigrationDown None, file_name = ''2_test.go''\<rparr>,
      test_migration 1 None]) (fresh\<lparr>vtable := Some []\<rparr>) \<and>
   snd (up \<lparr>version = 2,
       up = (\<lambda>d. if (1, MigrationUp) \<in> set (user d)
                  then (d\<lparr>user := user d @ [(2, MigrationUp)]\<rparr>, None)
                  else (d, Some (Cause ''no such table''))),
       down = newMigrationFunc 2 MigrationDown None, file_name = ''2_test.go''\<rparr>
     (fresh\<lparr>vtable := Some []\<rparr>)) = Some (Cause ''no such table'') \<and>
   insert_err (working 7 (\<lambda>rs. 0)) = None \<and>
   begin_err (working 7 (\<lambda>rs. 0)) = None \<and> commit_err (working 7 (\<lambda>rs. 0)) = None \<and>
   fst (Up (working 7 (\<lambda>rs. 0))
     [\<lparr>version = 2,
       up = (\<lambda>d. if (1, MigrationUp) \<in> set (user d)
                  then (d\<lparr>user := user d @ [(2, MigrationUp)]\<rparr>, None)
                  else (d, Some (Cause ''no such table''))),
       down = newMigrationFunc 2 MigrationDown None, file_name = ''2_test.go''\<rparr>,
      test_migration 1 None] True fresh) = (0, 2, None) \<and>
   fst (snd (Up (working 7 (\<lambda>rs. 0))
     [\<lparr>version = 2,
       up = (\<lambda>d. if (1, MigrationUp) \<in> set (user d)
                  then (d\<lparr>user := user d @ [(2, MigrationUp)]\<rparr>, None)
                  else (d, Some (Cause ''no such table''))),
       down = newMigrationFunc 2 MigrationDown None, file_name = ''2_test.go''\<rparr>,
      test_migration 1 None] True fresh)) = [(MigrationUp, 1), (MigrationUp, 2)]"
proof -
  let ?e = "working 7 (\<lambda>rs. 0)"
  let ?m2 = "\<lparr>version = 2,
       up = (\<lambda>d. if (1, MigrationUp) \<in> set (user d)
                  then (d\<lparr>user := user d @ [(2, MigrationUp)]\<rparr>, None)
                  else (d, Some (Cause ''no such table''))),
       down = newMigrationFunc 2 MigrationDown None, file_name = ''2_test.go''\<rparr>"
  let ?g = "[?m2, test_migration 1 None]"
  let ?d = "fresh\<lparr>vtable := Some []\<rparr>"
  have n: "(0 :: nat) < 2" "(2 :: nat) < 2 ^ 63" by simp_all
  have m: "mset (map version ?g) = mset (map word_of_nat [1..<Suc 2])"
    by (simp add: test_migration_def upt_rec)
  have c: "CurrentVersion ?e fresh = ((0, None), ?d)"
    by (rule CurrentVersion_fresh)
  have s: "sortedMigrations ?g = [test_migration 1 None, ?m2]"
    by (simp add: sortedMigrations_def test_migration_def)
  have a: "all_succeed up (sortedMigrations ?g) ?d"
    unfolding s
    by (simp add: all_succeed_Cons test_migration_def newMigrationFunc_def fresh_def)
      (simp add: all_succeed_def)
  have v: "vtable (effects up (sortedMigrations ?g) ?d) \<noteq> None"
    unfolding s
    by (simp add: effects_Cons effects_Nil test_migration_def newMigrationFunc_def fresh_def)
  have f: "snd (up ?m2 ?d) = Some (Cause ''no such table'')"
    by (simp add: fresh_def)
  have i: "insert_err ?e = None" and b: "begin_err ?e = None" and k: "commit_err ?e = None"
    by (simp_all add: working_def)
  from b k have t: "True \<longrightarrow> begin_err ?e = None \<and> commit_err ?e = None" by simp
  have u: "map (\<lambda>i. (MigrationUp, word_of_nat i :: int64)) [1..<Suc 2] =
      [(MigrationUp, 1), (MigrationUp, 2)]"
    by (simp add: upt_rec)
  from Up_runs_all_steps_in_order [OF n m c a v i t] u
  have r: "fst (Up ?e ?g True fresh) = (0, 2, None)"
    "fst (snd (Up ?e ?g True fresh)) = [(MigrationUp, 1), (MigrationUp, 2)]"
    by simp_all
  from m c a f i b k r show ?thesis by (intro conjI)
qed

section \<open>Failure inside a transaction\<close>

text \<open>
  Claim C3: when a batch runs in a transaction (\<open>tx = True\<close>) and the function of its
  step \<open>k\<close> fails, the application returns an error and the database is afterwards
  exactly what it was before the call, but for the version table that
  \<open>CurrentVersion\<close> created if it was absent: no version record is appended and nothing
  that a step of the batch did remains, the steps before \<open>k\<close> included.
\<close>

theorem tx_failure_leaves_no_effect:
  assumes "begin_err e = None"
    and "CurrentVersion e db0 = ((old, None), db)"
    and "fails_at (action dir) (pending dir migs old target) db k c"
  shows "snd (fst (application dir e migs True old target db)) \<noteq> None \<and>
         snd (snd (application dir e migs True old target db)) =
           db0\<lparr>vtable := Some (case vtable db0 of None \<Rightarrow> [] | Some rs \<Rightarrow> rs)\<rparr>"
  using application_fails_tx [OF assms(1,3)] CurrentVersion_creates_table [OF assms(2)]
  by (simp split: option.splits)

text \<open>
  \<open>TestUp_ErrorMigration\<close> with \<open>tx = true\<close>: step 2 of 3 fails, and the table
  \<open>migrations_run\<close> is empty afterwards.
\<close>

theorem tx_failure_leaves_no_effect_witness:
  "begin_err (working 5 (\<lambda>rs. 0)) = None \<and>
   CurrentVersion (working 5 (\<lambda>rs. 0)) fresh = ((0, None), fresh\<lparr>vtable := Some []\<rparr>) \<and>
   fails_at (action MigrationUp) (pending MigrationUp errorMigrations 0 MaxInt64)
     (fresh\<lparr>vtable := Some []\<rparr>) 1 (Cause ''err'') \<and>
   snd (fst (application MigrationUp (working 5 (\<lambda>rs. 0)) errorMigrations True 0 MaxInt64
     (fresh\<lparr>vtable := Some []\<rparr>))) \<noteq> None \<and>
   snd (snd (application MigrationUp (working 5 (\<lambda>rs. 0)) errorMigrations True 0 MaxInt64
     (fresh\<lparr>vtable := Some []\<rparr>))) = \<lparr>vtable = Some [], user = []\<rparr>"
proof -
  have b: "begin_err (working 5 (\<lambda>rs. 0)) = None" by (simp add: working_def)
  have v: "CurrentVersion (working 5 (\<lambda>rs. 0)) fresh = ((0, None), fresh\<lparr>vtable := Some []\<rparr>)"
    by (rule CurrentVersion_fresh)
  have f: "fails_at (action MigrationUp) (pending MigrationUp errorMigrations 0 MaxInt64)
     (fresh\<lparr>vtable := Some []\<rparr>) 1 (Cause ''err'')"
    by (rule fails_at_pending_up_errorMigrations)
  have "fresh\<lparr>vtable := Some (case vtable fresh of None \<Rightarrow> [] | Some rs \<Rightarrow> rs)\<rparr> =
      \<lparr>vtable = Some [], user = []\<rparr>"
    by (simp add: fresh_def)
  then show ?thesis
    using tx_failure_leaves_no_effect [OF b v f] b v f by simp
qed

section \<open>Failure outside a transaction\<close>

text \<open>
  Claim C4: when a batch runs without a transaction (\<open>tx = False\<close>) and the function of
  its step \<open>k\<close> fails, the error returned names the version of step \<open>k\<close> and wraps the
  cause; the database is what step \<open>k\<close> left when it ran on the database that the steps
  before it had produced, so their effects stay; and this call appends no record to the
  version table: where the functions of the pending steps leave the version table alone,
  it is afterwards what it was when the batch began.
\<close>

theorem no_tx_failure_keeps_earlier_steps:
  assumes "fails_at (action dir) (pending dir migs old target) db k c"
  shows "snd (fst (application dir e migs False old target db)) =
           Some (step_error dir (version (pending dir migs old target ! k)) c) \<and>
         snd (snd (application dir e migs False old target db)) =
           fst (action dir (pending dir migs old target ! k)
                  (effects (action dir) (take k (pending dir migs old target)) db)) \<and>
         (list_all (\<lambda>m. \<forall>d. vtable (fst (action dir m d)) = vtable d)
            (pending dir migs old target)
            \<longrightarrow> vtable (snd (snd (application dir e migs False old target db))) = vtable db)"
proof -
  let ?p = "pending dir migs old target"
  from assms have k: "k < length ?p" by (simp add: fails_at_def)
  have r: "application dir e migs False old target db =
     ((reported dir (version (?p ! k)), Some (step_error dir (version (?p ! k)) c)),
      invocations dir (take (Suc k) ?p), effects (action dir) (take (Suc k) ?p) db)"
    by (rule application_fails [OF assms])
  have "list_all (\<lambda>m. \<forall>d. vtable (fst (action dir m d)) = vtable d) ?p \<longrightarrow>
      vtable (effects (action dir) (take (Suc k) ?p) db) = vtable db"
  proof
    assume "list_all (\<lambda>m. \<forall>d. vtable (fst (action dir m d)) = vtable d) ?p"
    then have "\<forall>m \<in> set (take (Suc k) ?p). \<forall>d. vtable (fst (action dir m d)) = vtable d"
      by (auto simp: list_all_iff dest: in_set_takeD)
    then show "vtable (effects (action dir) (take (Suc k) ?p) db) = vtable db"
      by (rule effects_vtable)
  qed
  then show ?thesis
    by (simp add: r effects_take_Suc [OF k])
qed

text \<open>
  \<open>TestUp_ErrorMigration\<close> with \<open>tx = false\<close>: step 2 of 3 fails, and the rows of steps
  1 and 2 are in \<open>migrations_run\<close> afterwards.
\<close>

theorem no_tx_failure_keeps_earlier_steps_witness:
  "fails_at (action MigrationUp) (pending MigrationUp errorMigrations 0 MaxInt64)
     (fresh\<lparr>vtable := Some []\<rparr>) 1 (Cause ''err'') \<and>
   list_all (\<lambda>m. \<forall>d. vtable (fst (action MigrationUp m d)) = vtable d)
     (pending MigrationUp errorMigrations 0 MaxInt64) \<and>
   snd (fst (application MigrationUp (working 5 (\<lambda>rs. 0)) errorMigrations False 0 MaxInt64
     (fresh\<lparr>vtable := Some []\<rparr>))) = Some (StepUp 2 (Cause ''err'')) \<and>
   snd (snd (application MigrationUp (working 5 (\<lambda>rs. 0)) errorMigrations False 0 MaxInt64
     (fresh\<lparr>vtable := Some []\<rparr>))) =
     \<lparr>vtable = Some [], user = [(1, MigrationUp), (2, MigrationUp)]\<rparr>"
proof -
  have f: "fails_at (action MigrationUp) (pending MigrationUp errorMigrations 0 MaxInt64)
     (fresh\<lparr>vtable := Some []\<rparr>) 1 (Cause ''err'')"
    by (rule fails_at_pending_up_errorMigrations)
  have p: "list_all (\<lambda>m. \<forall>d. vtable (fst (action MigrationUp m d)) = vtable d)
     (pending MigrationUp errorMigrations 0 MaxInt64)"
    unfolding pending_up_errorMigrations
    by (simp add: action_def errorMigrations_def test_migration_def newMigrationFunc_def)
  have s: "step_error MigrationUp (version (pending MigrationUp errorMigrations 0 MaxInt64 ! 1))
      (Cause ''err'') = StepUp 2 (Cause ''err'')"
    unfolding pending_up_errorMigrations
    by (simp add: step_error_def errorMigrations_def test_migration_def)
  have d: "fst (action MigrationUp (pending MigrationUp errorMigrations 0 MaxInt64 ! 1)
      (effects (action MigrationUp) (take 1 (pending MigrationUp errorMigrations 0 MaxInt64))
        (fresh\<lparr>vtable := Some []\<rparr>))) =
      \<lparr>vtable = Some [], user = [(1, MigrationUp), (2, MigrationUp)]\<rparr>"
    unfolding pending_up_errorMigrations
    by (simp add: action_def errorMigrations_def test_migration_def effects_def
        newMigrationFunc_def fresh_def)
  show ?thesis
    using no_tx_failure_keeps_earlier_steps [OF f, of "working 5 (\<lambda>rs. 0)"] f p s d by simp
qed

section \<open>Register\<close>

text \<open>The four panics of \<open>Register\<close>.\<close>

lemma Register_panics:
  "Register None d c ms = Inl NilMigration"
  "Register u None c ms = Inl NilMigration"
  "versionFromFile (Base c) = Inl err \<Longrightarrow> Register (Some u') (Some d') c ms = Inl err"
  "versionFromFile (Base c) = Inr v \<Longrightarrow> v <s 0 \<Longrightarrow>
     Register (Some u') (Some d') c ms = Inl (InvalidVersion v (Base c))"
  "versionFromFile (Base c) = Inr v \<Longrightarrow> \<not> v <s 0 \<Longrightarrow>
     find (\<lambda>m. version m = v) ms = Some m \<Longrightarrow>
     Register (Some u') (Some d') c ms = Inl (AlreadyRegistered v (file_name m))"
  by (simp_all add: Register_def split: option.splits)

text \<open>
  Claim C5: \<open>Register\<close> panics when a function is nil, when the version parsed from the
  file name is zero or negative, when the version is already registered, and when the file
  name is malformed. The guard of the code is \<open>v < 0\<close>, so for version zero it does not
  fire, although its message says that the version must be bigger than 0 and
  \<open>TestRegister_InvalidVersion\<close> expects a panic for the file 0000_foo.go:
  called from that file on an empty registry, \<open>Register\<close> returns normally and the
  registry holds a step with version 0.
\<close>

theorem Register_accepts_version_zero:
  "Register (Some u) (Some d) ''/0000_foo.go'' [] =
     Inr [\<lparr>version = 0, up = u, down = d, file_name = ''0000_foo.go''\<rparr>]"
  by (simp add: Register_def Base_def versionFromFile_def HasSuffix_def ParseInt_def
      is_digit_def digits_value_def)

section \<open>CurrentVersion\<close>

text \<open>
  Claim C6: when the driver works, \<open>CurrentVersion\<close> returns 0 and no error for a
  version table without records (or not yet created), and otherwise the version of a
  record whose \<open>updated_at\<close> (the timestamp of its application) is the latest of the
  table: no record has a later one. It is not the greatest version stored; where
  several records share the latest timestamp, it is the version of one of them.
\<close>

theorem CurrentVersion_is_latest_record:
  assumes "setup_err e = None" and "query_err e = None"
  shows "(table_rows db = [] \<longrightarrow> fst (CurrentVersion e db) = (0, None)) \<and>
         (table_rows db \<noteq> [] \<longrightarrow>
            (\<exists>v t. fst (CurrentVersion e db) = (v, None) \<and> (v, t) \<in> set (table_rows db) \<and>
                   list_all (\<lambda>r. snd r \<le>s t) (table_rows db)))"
proof -
  have r: "table_rows (fst (setup_table e db)) = table_rows db" and s: "snd (setup_table e db) = None"
    using assms(1) by (auto simp: setup_table_def table_rows_def split: option.splits)
  obtain db1 where d: "setup_table e db = (db1, None)" using s by (cases "setup_table e db") auto
  with r have r1: "table_rows db1 = table_rows db" by simp
  show ?thesis
  proof (intro conjI impI)
    assume "table_rows db = []"
    then have "first_row e (table_rows db1) = None" by (simp add: r1 first_row_None)
    then show "fst (CurrentVersion e db) = (0, None)"
      by (simp add: CurrentVersion_def d assms(2))
  next
    assume "table_rows db \<noteq> []"
    then obtain v where v: "first_row e (table_rows db1) = Some v"
      using first_row_None [of e "table_rows db1"] r1 by (cases "first_row e (table_rows db1)") auto
    then obtain t where t: "(v, t) \<in> set (table_rows db)" "\<forall>r' \<in> set (table_rows db). snd r' \<le>s t"
      using first_row_Some r1 by metis
    have "fst (CurrentVersion e db) = (v, None)"
      by (simp add: CurrentVersion_def d assms(2) v)
    with t show "\<exists>v t. fst (CurrentVersion e db) = (v, None) \<and> (v, t) \<in> set (table_rows db) \<and>
                   list_all (\<lambda>r. snd r \<le>s t) (table_rows db)"
      by (auto simp: list_all_iff)
  qed
qed

text \<open>
  A table that went up to version 3 at time 10 and back to version 2 at time 20 is at
  version 2; a database without the table is at version 0.
\<close>

theorem CurrentVersion_is_latest_record_witness:
  "setup_err (working 30 (\<lambda>rs. 0)) = None \<and> query_err (working 30 (\<lambda>rs. 0)) = None \<and>
   table_rows \<lparr>vtable = Some [(3, 10), (2, 20)], user = ()\<rparr> \<noteq> [] \<and>
   fst (CurrentVersion (working 30 (\<lambda>rs. 0)) \<lparr>vtable = Some [(3, 10), (2, 20)], user = ()\<rparr>) =
     (2, None) \<and>
   table_rows \<lparr>vtable = None, user = ()\<rparr> = [] \<and>
   fst (CurrentVersion (working 30 (\<lambda>rs. 0)) \<lparr>vtable = None, user = ()\<rparr>) = (0, None)"
proof -
  let ?e = "working 30 (\<lambda>rs. 0)"
  let ?d = "\<lparr>vtable = Some [(3, 10), (2, 20)], user = ()\<rparr>"
  let ?n = "\<lparr>vtable = None, user = ()\<rparr>"
  have s: "setup_err ?e = None" and q: "query_err ?e = None" by (simp_all add: working_def)
  have r: "table_rows ?d = [(3, 10), (2, 20)]" and n: "table_rows ?n = []"
    by (simp_all add: table_rows_def)
  from CurrentVersion_is_latest_record [OF s q, of ?d] r
  obtain v t where v: "fst (CurrentVersion ?e ?d) = (v, None)"
    and m: "(v, t) \<in> set [(3 :: int64, 10 :: int64), (2, 20)]"
    and g: "list_all (\<lambda>r. snd r \<le>s t) [(3 :: int64, 10 :: int64), (2, 20)]"
    by auto
  from m g have "v = 2" by (auto simp: word_sle_eq)
  with v have a: "fst (CurrentVersion ?e ?d) = (2, None)" by simp
  from CurrentVersion_is_latest_record [OF s q, of ?n] n
  have b: "fst (CurrentVersion ?e ?n) = (0, None)" by simp
  from s q r n a b show ?thesis by simp
qed

section \<open>Nothing to run\<close>

text \<open>
  Claim C7: an ascending or descending application whose pending steps are none fails
  with the error "no transactions to run", which is not the error of a version that is
  not registered; it calls no migration function and leaves the database as it is. So
  does \<open>Up\<close> when no registered version is above the current one, and \<open>Down\<close> when no
  step has the current version; the database is then the one before the call with the
  version table created.
\<close>

theorem empty_pending_is_NoWork:
  "(pending dir migs old target = [] \<longrightarrow>
      application dir e migs tx old target db = ((0, Some NoWork), [], db)) \<and>
   (CurrentVersion e db0 = ((old, None), db) \<and> list_all (\<lambda>m. \<not> old <s version m) migs \<longrightarrow>
      Up e migs tx db0 = ((old, 0, Some NoWork), [], db) \<and>
      db = db0\<lparr>vtable := Some (table_rows db0)\<rparr>) \<and>
   (CurrentVersion e db0 = ((old, None), db) \<and> list_all (\<lambda>m. version m \<noteq> old) migs \<longrightarrow>
      Down e migs tx db0 = ((old, 0, Some NoWork), [], db) \<and>
      db = db0\<lparr>vtable := Some (table_rows db0)\<rparr>) \<and>
   NoWork \<noteq> NotFound v"
proof (intro conjI impI)
  assume "pending dir migs old target = []"
  then show "application dir e migs tx old target db = ((0, Some NoWork), [], db)"
    by (cases dir) (simp_all add: pending_def application_def upTo_NoWork downTo_NoWork)
next
  assume a: "CurrentVersion e db0 = ((old, None), db) \<and> list_all (\<lambda>m. \<not> old <s version m) migs"
  then have "upTo_pending migs old MaxInt64 = []" by (simp add: Up_pending_empty)
  with a show "Up e migs tx db0 = ((old, 0, Some NoWork), [], db)"
    by (simp add: Up_def upTo_NoWork)
  from a show "db = db0\<lparr>vtable := Some (table_rows db0)\<rparr>"
    using CurrentVersion_creates_table [of e db0 old db] by (simp add: table_rows_def)
next
  assume a: "CurrentVersion e db0 = ((old, None), db) \<and> list_all (\<lambda>m. version m \<noteq> old) migs"
  then have "downTo_pending migs old (old - 1) = []" by (simp add: Down_pending_empty)
  with a show "Down e migs tx db0 = ((old, 0, Some NoWork), [], db)"
    by (simp add: Down_def downTo_NoWork)
  from a show "db = db0\<lparr>vtable := Some (table_rows db0)\<rparr>"
    using CurrentVersion_creates_table [of e db0 old db] by (simp add: table_rows_def)
next
  show "NoWork \<noteq> NotFound v" by simp
qed

text \<open>
  \<open>Up\<close> on steps 1..3 at version 3, and \<open>Down\<close> on a fresh database
  (\<open>TestDown_NoMigrations\<close>).
\<close>

theorem empty_pending_is_NoWork_witness:
  "pending MigrationUp (generateMigrations 3) 3 MaxInt64 = [] \<and>
   application MigrationUp (working 9 (\<lambda>rs. 0)) (generateMigrations 3) True 3 MaxInt64
     \<lparr>vtable = Some [(3, 1)], user = []\<rparr> =
     ((0, Some NoWork), [], \<lparr>vtable = Some [(3, 1)], user = []\<rparr>) \<and>
   CurrentVersion (working 9 (\<lambda>rs. 0)) \<lparr>vtable = Some [(3, 1)], user = [] :: runs\<rparr> =
     ((3, None), \<lparr>vtable = Some [(3, 1)], user = []\<rparr>) \<and>
   list_all (\<lambda>m. \<not> 3 <s version m) (generateMigrations 3) \<and>
   Up (working 9 (\<lambda>rs. 0)) (generateMigrations 3) True \<lparr>vtable = Some [(3, 1)], user = []\<rparr> =
     ((3, 0, Some NoWork), [], \<lparr>vtable = Some [(3, 1)], user = []\<rparr>) \<and>
   CurrentVersion (working 9 (\<lambda>rs. 0)) fresh = ((0, None), fresh\<lparr>vtable := Some []\<rparr>) \<and>
   list_all (\<lambda>m. version m \<noteq> 0) (generateMigrations 3) \<and>
   Down (working 9 (\<lambda>rs. 0)) (generateMigrations 3) True fresh =
     ((0, 0, Some NoWork), [], fresh\<lparr>vtable := Some []\<rparr>)"
proof -
  let ?e = "working 9 (\<lambda>rs. 0)"
  let ?g = "generateMigrations 3"
  let ?d = "\<lparr>vtable = Some [(3 :: int64, 1 :: int64)], user = [] :: runs\<rparr>"
  have c3: "CurrentVersion ?e ?d = ((3, None), ?d)"
    by (rule CurrentVersion_single) (simp_all add: working_def)
  have c0: "CurrentVersion ?e fresh = ((0, None), fresh\<lparr>vtable := Some []\<rparr>)"
    by (rule CurrentVersion_fresh)
  have l3: "list_all (\<lambda>m. \<not> 3 <s version m) ?g"
    by (simp add: generateMigrations_3 test_migration_def word_sless_alt)
  have l0: "list_all (\<lambda>m. version m \<noteq> 0) ?g"
    by (simp add: generateMigrations_3 test_migration_def)
  have p: "pending MigrationUp ?g 3 MaxInt64 = []"
    using l3 by (simp add: pending_def Up_pending_empty)
  note t = empty_pending_is_NoWork [where dir = MigrationUp and migs = ?g and tx = True
      and e = ?e and target = MaxInt64 and v = 0]
  from t [where old = 3 and db = ?d and ?db0.0 = ?d] p c3 l3
  have a: "application MigrationUp ?e ?g True 3 MaxInt64 ?d = ((0, Some NoWork), [], ?d)"
    and b: "Up ?e ?g True ?d = ((3, 0, Some NoWork), [], ?d)"
    by blast+
  from t [where old = 0 and db = "fresh\<lparr>vtable := Some []\<rparr>" and ?db0.0 = fresh] c0 l0
  have c: "Down ?e ?g True fresh = ((0, 0, Some NoWork), [], fresh\<lparr>vtable := Some []\<rparr>)"
    by blast
  from p a c3 l3 b c0 l0 c show ?thesis by simp
qed

section \<open>The version returned with a step failure\<close>

text \<open>
  Claim C8, as amended: the closure assigns \<open>newVersion\<close> before it calls the function
  of a step, so when step \<open>k\<close> fails the \<open>newVersion\<close> returned with the error is the
  version of the failing step \<open>k\<close> in an ascending run, and that version minus one in a
  descending run (in a transaction: provided \<open>Begin\<close> succeeded).
\<close>

theorem failure_reports_attempted_version:
  assumes "tx \<longrightarrow> begin_err e = None"
    and "fails_at (action dir) (pending dir migs old target) db k c"
  shows "fst (fst (application dir e migs tx old target db)) =
           reported dir (version (pending dir migs old target ! k))"
proof (cases tx)
  case True
  with assms(1) have "begin_err e = None" by simp
  from application_fails_tx [OF this assms(2)] True show ?thesis by simp
next
  case False
  with application_fails [OF assms(2)] show ?thesis by simp
qed

text \<open>
  A descending run over the registry of \<open>TestUp_ErrorMigration\<close> from version 3 to 0:
  the second step, of version 2, fails, and the version returned is 1.
\<close>

theorem failure_reports_attempted_version_witness:
  "begin_err (working 5 (\<lambda>rs. 0)) = None \<and>
   fails_at (action MigrationDown) (pending MigrationDown errorMigrations 3 0)
     \<lparr>vtable = Some [(3, 1)], user = []\<rparr> 1 (Cause ''err'') \<and>
   version (pending MigrationDown errorMigrations 3 0 ! 1) = 2 \<and>
   fst (fst (application MigrationDown (working 5 (\<lambda>rs. 0)) errorMigrations True 3 0
     \<lparr>vtable = Some [(3, 1)], user = []\<rparr>)) = 1"
proof -
  have b: "True \<longrightarrow> begin_err (working 5 (\<lambda>rs. 0)) = None" by (simp add: working_def)
  have f: "fails_at (action MigrationDown) (pending MigrationDown errorMigrations 3 0)
     \<lparr>vtable = Some [(3, 1)], user = []\<rparr> 1 (Cause ''err'')"
    by (rule fails_at_pending_down_errorMigrations)
  have v: "version (pending MigrationDown errorMigrations 3 0 ! 1) = 2"
    unfolding pending_down_errorMigrations
    by (simp add: errorMigrations_def test_migration_def)
  show ?thesis
    using failure_reports_attempted_version [OF b f] b f v by (simp add: reported_def)
qed

text \<open>
  Claim C8 as stated (the version returned is that of step \<open>k - 1\<close>, the last one that
  succeeded) fails for \<open>Up\<close> on the registry of \<open>TestUp_ErrorMigration\<close>: the second
  pending step fails, the first has version 1, and the version returned is 2.
\<close>

theorem failure_reports_last_success_counterexample:
  "fails_at (action MigrationUp) (pending MigrationUp errorMigrations 0 MaxInt64)
     (fresh\<lparr>vtable := Some []\<rparr>) 1 (Cause ''err'') \<and>
   version (pending MigrationUp errorMigrations 0 MaxInt64 ! 0) = 1 \<and>
   fst (Up (working 5 (\<lambda>rs. 0)) errorMigrations False fresh) =
     (0, 2, Some (StepUp 2 (Cause ''err''))) \<and>
   fst (snd (fst (Up (working 5 (\<lambda>rs. 0)) errorMigrations False fresh))) \<noteq>
     version (pending MigrationUp errorMigrations 0 MaxInt64 ! 0)"
proof -
  have f: "fails_at (action MigrationUp) (pending MigrationUp errorMigrations 0 MaxInt64)
     (fresh\<lparr>vtable := Some []\<rparr>) 1 (Cause ''err'')"
    by (rule fails_at_pending_up_errorMigrations)
  have v: "version (pending MigrationUp errorMigrations 0 MaxInt64 ! 0) = 1"
    "version (pending MigrationUp errorMigrations 0 MaxInt64 ! 1) = 2"
    unfolding pending_up_errorMigrations
    by (simp_all add: errorMigrations_def test_migration_def)
  have "fst (application MigrationUp (working 5 (\<lambda>rs. 0)) errorMigrations False 0 MaxInt64
      (fresh\<lparr>vtable := Some []\<rparr>)) = (2, Some (StepUp 2 (Cause ''err'')))"
    using v by (simp add: application_fails [OF f] reported_def step_error_def)
  then have "fst (Up (working 5 (\<lambda>rs. 0)) errorMigrations False fresh) =
      (0, 2, Some (StepUp 2 (Cause ''err'')))"
    by (auto simp: Up_def CurrentVersion_fresh application_def split: prod.splits)
  with f v show ?thesis by simp
qed

section \<open>Rollback failure\<close>

text \<open>
  Claim C9: in a transaction, when the function of a step fails and \<open>Rollback\<close> fails
  too, the error returned is the rollback failure; it carries the error of \<open>Rollback\<close>
  only, and the error of the step is not part of it.
\<close>

theorem rollback_failure_replaces_step_error:
  assumes "begin_err e = None"
    and "rollback_err e = Some r"
    and "fails_at (action dir) (pending dir migs old target) db k c"
  shows "snd (fst (application dir e migs True old target db)) = Some (RollbackFailed r)"
  using application_fails_tx [OF assms(1,3)] assms(2) by simp

text \<open>\<open>TestUp_ErrorMigration\<close> in a transaction whose rollback fails.\<close>

theorem rollback_failure_replaces_step_error_witness:
  "begin_err ((working 5 (\<lambda>rs. 0))\<lparr>rollback_err := Some (Cause ''bad connection'')\<rparr>) = None \<and>
   rollback_err ((working 5 (\<lambda>rs. 0))\<lparr>rollback_err := Some (Cause ''bad connection'')\<rparr>) =
     Some (Cause ''bad connection'') \<and>
   fails_at (action MigrationUp) (pending MigrationUp errorMigrations 0 MaxInt64)
     (fresh\<lparr>vtable := Some []\<rparr>) 1 (Cause ''err'') \<and>
   snd (fst (application MigrationUp
     ((working 5 (\<lambda>rs. 0))\<lparr>rollback_err := Some (Cause ''bad connection'')\<rparr>)
     errorMigrations True 0 MaxInt64 (fresh\<lparr>vtable := Some []\<rparr>))) =
     Some (RollbackFailed (Cause ''bad connection''))"
proof -
  let ?e = "(working 5 (\<lambda>rs. 0))\<lparr>rollback_err := Some (Cause ''bad connection'')\<rparr>"
  have b: "begin_err ?e = None" by (simp add: working_def)
  have r: "rollback_err ?e = Some (Cause ''bad connection'')" by simp
  have f: "fails_at (action MigrationUp) (pending MigrationUp errorMigrations 0 MaxInt64)
     (fresh\<lparr>vtable := Some []\<rparr>) 1 (Cause ''err'')"
    by (rule fails_at_pending_up_errorMigrations)
  show ?thesis
    using rollback_failure_replaces_step_error [OF b r f] b r f by simp
qed

section \<open>ToVersion at the current version\<close>

text \<open>
  Claim C10: when the current version is the target \<open>v\<close>, \<open>ToVersion\<close> returns
  \<open>(v, v, nil)\<close>, calls no migration function and writes no version record, whether a
  step of version \<open>v\<close> is registered or not: the comparison comes before the search of
  the registry. The error "unable to find a migration with version v" is returned
  exactly when \<open>v\<close> is not the current version and no registered step has version \<open>v\<close>.
\<close>

theorem ToVersion_same_version_is_noop:
  assumes "CurrentVersion e db0 = ((old, None), db)"
  shows "(old = v \<longrightarrow>
            ToVersion e migs tx v db0 = ((v, v, None), [], db0\<lparr>vtable := Some (table_rows db0)\<rparr>)) \<and>
         (snd (snd (fst (ToVersion e migs tx v db0))) = Some (NotFound v) \<longleftrightarrow>
            old \<noteq> v \<and> \<not> list_ex (\<lambda>m. version m = v) migs) \<and>
         (old \<noteq> v \<and> \<not> list_ex (\<lambda>m. version m = v) migs \<longrightarrow>
            ToVersion e migs tx v db0 =
              ((0, 0, Some (NotFound v)), [], db0\<lparr>vtable := Some (table_rows db0)\<rparr>))"
proof -
  have d: "db = db0\<lparr>vtable := Some (table_rows db0)\<rparr>"
    using CurrentVersion_creates_table [OF assms] by (simp add: table_rows_def)
  show ?thesis
  proof (intro conjI impI)
    assume "old = v"
    with assms d show "ToVersion e migs tx v db0 =
        ((v, v, None), [], db0\<lparr>vtable := Some (table_rows db0)\<rparr>)"
      by (simp add: ToVersion_def)
  next
    assume "old \<noteq> v \<and> \<not> list_ex (\<lambda>m. version m = v) migs"
    with assms d show "ToVersion e migs tx v db0 =
        ((0, 0, Some (NotFound v)), [], db0\<lparr>vtable := Some (table_rows db0)\<rparr>)"
      by (simp add: ToVersion_def)
  next
    show "snd (snd (fst (ToVersion e migs tx v db0))) = Some (NotFound v) \<longleftrightarrow>
        old \<noteq> v \<and> \<not> list_ex (\<lambda>m. version m = v) migs"
      using assms upTo_not_NotFound [of e migs tx old v db v]
        downTo_not_NotFound [of e migs tx old v db v]
      by (auto simp: ToVersion_def split: prod.splits)
  qed
qed

text \<open>
  With an empty registry and a fresh database, the target 0 is a no-op and the target 4
  is not found (\<open>TestToVersion_NotFound\<close>).
\<close>

theorem ToVersion_same_version_is_noop_witness:
  "CurrentVersion (working 9 (\<lambda>rs. 0)) fresh = ((0, None), fresh\<lparr>vtable := Some []\<rparr>) \<and>
   \<not> list_ex (\<lambda>m. version m = 0) ([] :: runs migration list) \<and>
   ToVersion (working 9 (\<lambda>rs. 0)) [] True 0 fresh =
     ((0, 0, None), [], \<lparr>vtable = Some [], user = []\<rparr>) \<and>
   ToVersion (working 9 (\<lambda>rs. 0)) [] True 4 fresh =
     ((0, 0, Some (NotFound 4)), [], \<lparr>vtable = Some [], user = []\<rparr>)"
proof -
  let ?e = "working 9 (\<lambda>rs. 0)"
  have c0: "CurrentVersion ?e fresh = ((0, None), fresh\<lparr>vtable := Some []\<rparr>)"
    by (rule CurrentVersion_fresh)
  have f: "fresh\<lparr>vtable := Some (table_rows fresh)\<rparr> = \<lparr>vtable = Some [], user = []\<rparr>"
    by (simp add: fresh_def table_rows_def)
  from ToVersion_same_version_is_noop [OF c0, of 0 "[]" True]
  have a: "ToVersion ?e [] True 0 fresh = ((0, 0, None), [], \<lparr>vtable = Some [], user = []\<rparr>)"
    by (simp add: f)
  from ToVersion_same_version_is_noop [OF c0, of 4 "[]" True]
  have b: "ToVersion ?e [] True 4 fresh =
      ((0, 0, Some (NotFound 4)), [], \<lparr>vtable = Some [], user = []\<rparr>)"
    by (simp add: f)
  from c0 a b show ?thesis by simp
qed

end
